theory Spec2Isabelle
  imports Main "HOL-Library.Word" "HOL-Library.AList"
begin

unbundle bit_operations_syntax

section \<open>Values of the Go runtime and of the two libraries the server uses\<close>

text \<open>
  An IPv4 address (\<^verbatim>\<open>net.IP\<close> after \<^verbatim>\<open>To4()\<close>) is the 32-bit number its four bytes
  spell in big-endian order. A \<^verbatim>\<open>time.Time\<close> is a number of nanoseconds counted from Go's
  zero time, so the zero value of the type is \<open>0\<close>; a \<^verbatim>\<open>time.Duration\<close> is a number of
  nanoseconds. Go's \<^verbatim>\<open>uint\<close> and \<^verbatim>\<open>int\<close> have 64 bits.
\<close>

type_synonym ip4 = "32 word"
type_synonym time = int
type_synonym duration = int

definition Second :: duration where
  "Second = 1000000000"

text \<open>The conversion \<^verbatim>\<open>uint(x)\<close> of a Go \<^verbatim>\<open>int\<close>: a negative number wraps around.\<close>

definition go_uint :: "int \<Rightarrow> nat" where
  "go_uint x = nat (x mod 2 ^ 64)"

text \<open>A product of two 64-bit signed numbers, as Go computes it (two's complement).\<close>

definition wrap_int64 :: "int \<Rightarrow> int" where
  "wrap_int64 x = sint (word_of_int x :: 64 word)"

subsection \<open>The bit set (package \<^verbatim>\<open>github.com/willf/bitset\<close>)\<close>

text \<open>
  A \<^verbatim>\<open>BitSet\<close> has a length and that many bits. \<^verbatim>\<open>Test\<close> and \<^verbatim>\<open>Clear\<close> beyond the
  length answer false and do nothing; \<^verbatim>\<open>Set\<close> beyond the length first extends the set
  with clear bits (\<^verbatim>\<open>extendSetMaybe\<close>).
\<close>

type_synonym BitSet = "bool list"

definition bitset_New :: "nat \<Rightarrow> BitSet" where
  "bitset_New n = replicate n False"

definition bitset_Len :: "BitSet \<Rightarrow> nat" where
  "bitset_Len bs = length bs"

definition bitset_Test :: "BitSet \<Rightarrow> nat \<Rightarrow> bool" where
  "bitset_Test bs i = (if i \<ge> length bs then False else bs ! i)"

definition bitset_Set :: "BitSet \<Rightarrow> nat \<Rightarrow> BitSet" where
  "bitset_Set bs i =
     (if i \<ge> length bs then bs @ replicate (i - length bs) False @ [True]
      else bs[i := True])"

definition bitset_Clear :: "BitSet \<Rightarrow> nat \<Rightarrow> BitSet" where
  "bitset_Clear bs i = (if i \<ge> length bs then bs else bs[i := False])"

subsection \<open>Address arithmetic (package \<^verbatim>\<open>github.com/krolaw/dhcp4\<close>)\<close>

text \<open>
  \<^verbatim>\<open>IPLess\<close> compares the four bytes from the first on, which is the order of the
  numbers. \<^verbatim>\<open>IPRange(start, stop)\<close> is the count of addresses from \<open>start\<close> to \<open>stop\<close>,
  both included, as a Go \<^verbatim>\<open>int\<close>: it is zero or negative when \<open>stop\<close> is below \<open>start\<close>.
  \<^verbatim>\<open>IPAdd\<close> adds in 32 bits.
\<close>

definition IPLess :: "ip4 \<Rightarrow> ip4 \<Rightarrow> bool" where
  "IPLess a b = (a < b)"

definition IPInRange :: "ip4 \<Rightarrow> ip4 \<Rightarrow> ip4 \<Rightarrow> bool" where
  "IPInRange start stop ip = (\<not> (IPLess ip start \<or> IPLess stop ip))"

definition IPRange :: "ip4 \<Rightarrow> ip4 \<Rightarrow> int" where
  "IPRange start stop = uint stop - uint start + 1"

definition IPAdd :: "ip4 \<Rightarrow> int \<Rightarrow> ip4" where
  "IPAdd start add = start + word_of_int add"

section \<open>The data model (\<^verbatim>\<open>subnet.go\<close>)\<close>

text \<open>
  The struct \<^verbatim>\<open>Option\<close> is called \<open>DhcpOption\<close> here. The three structs share field
  names, so the fields of a lease start with \<open>l\<close>, those of a binding with \<open>b\<close>. A Go map
  is a list of key and value pairs with distinct keys: the loops of the program run over
  its entries. \<^verbatim>\<open>m[k]\<close> is \<open>map_of m k\<close>, \<^verbatim>\<open>m[k] = v\<close> is \<open>AList.update k v m\<close> and
  \<^verbatim>\<open>delete(m, k)\<close> is \<open>AList.delete k m\<close>.
\<close>

record DhcpOption =
  Code :: "8 word"
  Value :: string

record Lease =
  lIp :: ip4
  lMac :: string
  lValid :: bool
  lExpireTime :: time

record Binding =
  bIp :: ip4
  bMac :: string
  bOptions :: "DhcpOption list"
  bNextServer :: "string option"

text \<open>
  A network (\<^verbatim>\<open>net.IPNet\<close>, wrapped in \<^verbatim>\<open>MyIPNet\<close>): the program builds every one with
  \<^verbatim>\<open>net.ParseCIDR\<close>, so its mask is the prefix mask of a length \<open>Ones\<close>.
\<close>

record MyIPNet =
  IP :: ip4
  Ones :: nat

definition CIDRMask :: "nat \<Rightarrow> ip4" where
  "CIDRMask ones = push_bit (32 - ones) (- 1)"

definition Contains :: "MyIPNet \<Rightarrow> ip4 \<Rightarrow> bool" where
  "Contains n ip = (IP n AND CIDRMask (Ones n) = ip AND CIDRMask (Ones n))"

record Subnet =
  Name :: string
  Subnet :: MyIPNet
  NextServer :: "ip4 option"
  ActiveStart :: ip4
  ActiveEnd :: ip4
  ActiveLeaseTime :: duration
  ActiveBits :: BitSet
  ReservedLeaseTime :: duration
  Leases :: "(string \<times> Lease) list"
  Bindings :: "(string \<times> Binding) list"
  Options :: "DhcpOption list"

section \<open>Leases and the search for a free address (\<^verbatim>\<open>subnet.go\<close>)\<close>

text \<open>
  Every operation returns the subnet it leaves behind; the Boolean beside it says whether
  the operation called \<^verbatim>\<open>save_data\<close>. The clock (\<^verbatim>\<open>time.Now()\<close>) is an argument.
\<close>

definition free_lease :: "Subnet \<Rightarrow> string \<Rightarrow> Subnet \<times> bool" where
  "free_lease subnet nic =
     (case map_of (Leases subnet) nic of
        Some lease \<Rightarrow>
          (subnet\<lparr>ActiveBits :=
               (if IPInRange (ActiveStart subnet) (ActiveEnd subnet) (lIp lease)
                then bitset_Clear (ActiveBits subnet)
                       (go_uint (IPRange (lIp lease) (ActiveStart subnet) - 1))
                else ActiveBits subnet),
             Leases := AList.delete nic (Leases subnet)\<rparr>, True)
      | None \<Rightarrow> (subnet, False))"

definition find_info :: "Subnet \<Rightarrow> string \<Rightarrow> Lease option \<times> Binding option" where
  "find_info subnet nic = (map_of (Leases subnet) nic, map_of (Bindings subnet) nic)"

function firstClearBit_from :: "BitSet \<Rightarrow> nat \<Rightarrow> nat \<times> bool" where
  "firstClearBit_from bs i =
     (if i < bitset_Len bs
      then (if \<not> bitset_Test bs i then (i, True) else firstClearBit_from bs (Suc i))
      else (0, False))"
  by pat_completeness auto
termination
  by (relation "measure (\<lambda>(bs, i). length bs - i)") (auto simp: bitset_Len_def)

declare firstClearBit_from.simps [simp del]

definition firstClearBit :: "BitSet \<Rightarrow> nat \<times> bool" where
  "firstClearBit bs = firstClearBit_from bs 0"

text \<open>
  The sweep of \<^verbatim>\<open>getFreeIP\<close> over the leases: the loop runs over the entries the map had
  when it started, and removes the expired ones from the subnet as it goes.
\<close>

fun sweep_leases :: "time \<Rightarrow> (string \<times> Lease) list \<Rightarrow> Subnet \<times> bool \<Rightarrow> Subnet \<times> bool" where
  "sweep_leases now [] acc = acc"
| "sweep_leases now ((k, lease) # rest) (subnet, save_me) =
     (if now > lExpireTime lease
      then sweep_leases now rest
             (subnet\<lparr>ActiveBits :=
                  (if IPInRange (ActiveStart subnet) (ActiveEnd subnet) (lIp lease)
                   then bitset_Clear (ActiveBits subnet)
                          (go_uint (IPRange (lIp lease) (ActiveStart subnet) - 1))
                   else ActiveBits subnet),
                Leases := AList.delete k (Leases subnet)\<rparr>, True)
      else sweep_leases now rest (subnet, save_me))"

definition getFreeIP :: "Subnet \<Rightarrow> time \<Rightarrow> ip4 option \<times> bool \<times> Subnet" where
  "getFreeIP subnet now =
     (case firstClearBit (ActiveBits subnet) of
        (b, True) \<Rightarrow>
          (Some (IPAdd (ActiveStart subnet) (int b)), True,
           subnet\<lparr>ActiveBits := bitset_Set (ActiveBits subnet) b\<rparr>)
      | (_, False) \<Rightarrow>
          (case sweep_leases now (Leases subnet) (subnet, False) of
             (swept, save_me) \<Rightarrow>
               (case firstClearBit (ActiveBits swept) of
                  (b, True) \<Rightarrow>
                    (Some (IPAdd (ActiveStart swept) (int b)), True,
                     swept\<lparr>ActiveBits := bitset_Set (ActiveBits swept) b\<rparr>)
                | (_, False) \<Rightarrow> (None, save_me, swept))))"

text \<open>
  \<^verbatim>\<open>find_or_get_info\<close>: the fast path under the read lock, then the slow path under the
  write lock, which reads both maps again. The result is the pair the function returns,
  the subnet afterwards and whether \<^verbatim>\<open>save_data\<close> ran. \<open>suggest\<close> is the address the client
  asked for (\<open>None\<close> for a nil \<^verbatim>\<open>net.IP\<close>).
\<close>

definition slow_path ::
  "Subnet \<Rightarrow> time \<Rightarrow> string \<Rightarrow> (Lease option \<times> Binding option) \<times> Subnet \<times> bool" where
  "slow_path subnet now nic =
     (let lease = map_of (Leases subnet) nic;
          binding = map_of (Bindings subnet) nic;
          theip = map_option bIp binding
      in if lease \<noteq> None \<and> binding \<noteq> None \<and> lIp (the lease) = bIp (the binding)
         then ((lease, binding), subnet, False)
         else
           (case (case theip of
                    Some ip \<Rightarrow> (Some ip, False, subnet)
                  | None \<Rightarrow> getFreeIP subnet now) of
              (None, save_me, subnet') \<Rightarrow> ((None, None), subnet', save_me)
            | (Some ip, save_me, subnet') \<Rightarrow>
                (let new = \<lparr>lIp = ip, lMac = nic, lValid = True, lExpireTime = 0\<rparr>
                 in ((Some new, binding),
                     subnet'\<lparr>Leases := AList.update nic new (Leases subnet')\<rparr>, True))))"

definition find_or_get_info ::
  "Subnet \<Rightarrow> time \<Rightarrow> string \<Rightarrow> ip4 option \<Rightarrow>
     (Lease option \<times> Binding option) \<times> Subnet \<times> bool" where
  "find_or_get_info subnet now nic suggest =
     (let binding = map_of (Bindings subnet) nic;
          lease = map_of (Leases subnet) nic
      in if lease \<noteq> None \<and> binding \<noteq> None \<and> lIp (the lease) = bIp (the binding)
         then ((lease, binding), subnet, False)
         else
           (let lease = (if lease \<noteq> None \<and> binding \<noteq> None then None else lease)
            in if lease = None then slow_path subnet now nic
               else ((lease, binding), subnet, False)))"

definition update_lease_time :: "Subnet \<Rightarrow> time \<Rightarrow> Lease \<Rightarrow> duration \<Rightarrow> Subnet \<times> bool" where
  "update_lease_time s now lease d =
     (s\<lparr>Leases := AList.map_entry (lMac lease) (\<lambda>l. l\<lparr>lExpireTime := now + d\<rparr>) (Leases s)\<rparr>,
      True)"

section \<open>Options of a reply (\<^verbatim>\<open>build_options\<close>)\<close>

text \<open>
  \<^verbatim>\<open>dhcp.Options\<close> maps an option code to its bytes. \<^verbatim>\<open>RenderToDHCP\<close> returns the
  code of the option with the bytes that the text template and
  \<^verbatim>\<open>convertOptionValueToByte\<close> make of its value and of the options of the packet; that
  part is the argument \<open>conv\<close> here, and \<open>None\<close> stands for an error, which the loops log
  and skip. The codes 58 and 59 are \<^verbatim>\<open>dhcp.OptionRenewalTimeValue\<close> and
  \<^verbatim>\<open>dhcp.OptionRebindingTimeValue\<close>.
\<close>

type_synonym DhcpOptions = "8 word \<rightharpoonup> 8 word list"

definition OptionSubnetMask :: "8 word" where
  "OptionSubnetMask = 1"

definition OptionBroadcastAddress :: "8 word" where
  "OptionBroadcastAddress = 28"

definition OptionRenewalTimeValue :: "8 word" where
  "OptionRenewalTimeValue = 58"

definition OptionRebindingTimeValue :: "8 word" where
  "OptionRebindingTimeValue = 59"

definition PutUint32 :: "32 word \<Rightarrow> 8 word list" where
  "PutUint32 v = [ucast (drop_bit 24 v), ucast (drop_bit 16 v), ucast (drop_bit 8 v), ucast v]"

definition RenderToDHCP ::
  "(DhcpOption \<Rightarrow> 8 word list option) \<Rightarrow> DhcpOption \<Rightarrow> 8 word \<times> 8 word list option" where
  "RenderToDHCP conv opt = (Code opt, conv opt)"

fun fold_in_options ::
  "(DhcpOption \<Rightarrow> 8 word list option) \<Rightarrow> DhcpOption list \<Rightarrow> DhcpOptions \<Rightarrow> DhcpOptions" where
  "fold_in_options conv [] opts = opts"
| "fold_in_options conv (opt # rest) opts =
     (case RenderToDHCP conv opt of
        (c, None) \<Rightarrow> fold_in_options conv rest opts
      | (c, Some v) \<Rightarrow> fold_in_options conv rest (opts(c \<mapsto> v)))"

definition build_options ::
  "(DhcpOption \<Rightarrow> 8 word list option) \<Rightarrow> Subnet \<Rightarrow> Lease \<Rightarrow> Binding option \<Rightarrow>
     DhcpOptions \<times> duration" where
  "build_options conv s lease binding =
     (let lt = (case binding of None \<Rightarrow> ActiveLeaseTime s | Some b \<Rightarrow> ReservedLeaseTime s);
          opts1 = Map.empty(OptionRenewalTimeValue \<mapsto> PutUint32 ((word_of_int lt :: 32 word) div 2));
          opts2 = opts1(OptionRebindingTimeValue \<mapsto> PutUint32 ((word_of_int lt :: 32 word) * 3 div 4));
          opts3 = fold_in_options conv (Options s) opts2;
          opts4 = (case binding of
                     None \<Rightarrow> opts3
                   | Some b \<Rightarrow> fold_in_options conv (bOptions b) opts3)
      in (opts4, lt))"

section \<open>The snapshot of a subnet (\<^verbatim>\<open>MarshalJSON\<close>, \<^verbatim>\<open>UnmarshalJSON\<close>)\<close>

text \<open>
  \<^verbatim>\<open>apiSubnet\<close> is the struct both functions hand to \<^verbatim>\<open>encoding/json\<close>; its fields
  start with \<open>a\<close> here. The text of an address is represented by the address it spells
  (\<open>None\<close> where \<^verbatim>\<open>net.ParseIP(...).To4()\<close> gives nil), and the text \<^verbatim>\<open>a.b.c.d/n\<close> of a
  network by the pair of the address and \<open>n\<close>, which \<^verbatim>\<open>net.ParseCIDR\<close> rejects when \<open>n\<close> is
  above 32 and otherwise masks. The dotted text of an address is needed for the values of
  the two options that \<^verbatim>\<open>UnmarshalJSON\<close> appends.
\<close>

function itoa :: "nat \<Rightarrow> string" where
  "itoa n = (if n < 10 then [char_of (48 + n)] else itoa (n div 10) @ [char_of (48 + n mod 10)])"
  by pat_completeness auto
termination
  by (relation "measure id") auto

declare itoa.simps [simp del]

definition ip_String :: "ip4 \<Rightarrow> string" where
  "ip_String ip =
     itoa (unat (drop_bit 24 ip)) @ ''.'' @ itoa (unat (drop_bit 16 ip AND 255)) @ ''.'' @
     itoa (unat (drop_bit 8 ip AND 255)) @ ''.'' @ itoa (unat (ip AND 255))"

definition ParseCIDR :: "ip4 \<times> nat \<Rightarrow> MyIPNet option" where
  "ParseCIDR txt =
     (case txt of (ip, n) \<Rightarrow>
        if n \<le> 32 then Some \<lparr>IP = ip AND CIDRMask n, Ones = n\<rparr> else None)"

record apiSubnet =
  aName :: string
  aSubnet :: "ip4 \<times> nat"
  aNextServer :: "ip4 option"
  aActiveStart :: "ip4 option"
  aActiveEnd :: "ip4 option"
  aActiveLeaseTime :: int
  aReservedLeaseTime :: int
  aLeases :: "Lease list"
  aBindings :: "Binding list"
  aOptions :: "DhcpOption list"

text \<open>
  \<^verbatim>\<open>int(d.Seconds())\<close>: the whole seconds of a duration, rounded towards zero. (Go goes
  through a float, which is exact when the duration is a whole number of seconds, as
  every duration that \<^verbatim>\<open>UnmarshalJSON\<close> builds is.)
\<close>

definition int_Seconds :: "duration \<Rightarrow> int" where
  "int_Seconds d = sgn d * (\<bar>d\<bar> div Second)"

definition MarshalJSON :: "Subnet \<Rightarrow> apiSubnet" where
  "MarshalJSON s =
     \<lparr>aName = Name s,
      aSubnet = (IP (Subnet s), Ones (Subnet s)),
      aNextServer = NextServer s,
      aActiveStart = Some (ActiveStart s),
      aActiveEnd = Some (ActiveEnd s),
      aActiveLeaseTime = int_Seconds (ActiveLeaseTime s),
      aReservedLeaseTime = int_Seconds (ReservedLeaseTime s),
      aLeases = map snd (Leases s),
      aBindings = map snd (Bindings s),
      aOptions = Options s\<rparr>"

fun load_leases :: "Lease list \<Rightarrow> Subnet \<Rightarrow> Subnet" where
  "load_leases [] s = s"
| "load_leases (v # rest) s =
     load_leases rest
       (s\<lparr>Leases := AList.update (lMac v) v (Leases s),
          ActiveBits :=
            (if IPInRange (ActiveStart s) (ActiveEnd s) (lIp v)
             then bitset_Set (ActiveBits s) (go_uint (IPRange (ActiveStart s) (lIp v) - 1))
             else ActiveBits s)\<rparr>)"

fun load_bindings :: "Binding list \<Rightarrow> Subnet \<Rightarrow> Subnet" where
  "load_bindings [] s = s"
| "load_bindings (v # rest) s =
     load_bindings rest
       (s\<lparr>Bindings := AList.update (bMac v) v (Bindings s),
          ActiveBits :=
            (if IPInRange (ActiveStart s) (ActiveEnd s) (bIp v)
             then bitset_Set (ActiveBits s) (go_uint (IPRange (ActiveStart s) (bIp v) - 1))
             else ActiveBits s)\<rparr>)"

text \<open>
  \<^verbatim>\<open>UnmarshalJSON\<close> on a new \<^verbatim>\<open>Subnet\<close>, which is how \<^verbatim>\<open>encoding/json\<close> and the
  management interface call it. An error is its message. When the end of the active range
  is more than one address below its start, the length given to \<^verbatim>\<open>bitset.New\<close> wraps
  around to more than \<open>2 ^ 63\<close> bits, which cannot be allocated.
\<close>

definition UnmarshalJSON :: "apiSubnet \<Rightarrow> string + Subnet" where
  "UnmarshalJSON as =
     (case ParseCIDR (aSubnet as) of
        None \<Rightarrow> Inl ''invalid CIDR address''
      | Some netdata \<Rightarrow>
          (case aActiveStart as of
             None \<Rightarrow> Inl ''ActiveStart not in Subnet''
           | Some start \<Rightarrow>
               if \<not> Contains netdata start then Inl ''ActiveStart not in Subnet''
               else
                 (case aActiveEnd as of
                    None \<Rightarrow> Inl ''ActiveEnd not in Subnet''
                  | Some stop \<Rightarrow>
                      if \<not> Contains netdata stop then Inl ''ActiveEnd not in Subnet''
                      else if IPRange start stop < 0 then Inl ''panic: bitset.New''
                      else
                        (let alt = wrap_int64 (aActiveLeaseTime as * Second);
                             rlt = wrap_int64 (aReservedLeaseTime as * Second);
                             s1 = \<lparr>Name = aName as,
                                   Subnet = netdata,
                                   NextServer = aNextServer as,
                                   ActiveStart = start,
                                   ActiveEnd = stop,
                                   ActiveLeaseTime = (if alt = 0 then 30 * Second else alt),
                                   ActiveBits = bitset_New (go_uint (IPRange start stop)),
                                   ReservedLeaseTime = (if rlt = 0 then 2 * (3600 * Second) else rlt),
                                   Leases = [],
                                   Bindings = [],
                                   Options = []\<rparr>;
                             s2 = load_leases (aLeases as) s1;
                             s3 = load_bindings (aBindings as) s2;
                             mask = CIDRMask (Ones netdata);
                             bcastBits = IP netdata OR NOT mask
                         in Inr (s3\<lparr>Options := aOptions as @
                                   [\<lparr>Code = OptionSubnetMask, Value = ip_String mask\<rparr>,
                                    \<lparr>Code = OptionBroadcastAddress, Value = ip_String bcastBits\<rparr>]\<rparr>)))))"

section \<open>The repository (\<^verbatim>\<open>data.go\<close>)\<close>

text \<open>
  The repository is the map of the subnets by name and the contents of
  \<^verbatim>\<open>database.json\<close>, which \<^verbatim>\<open>save_data\<close> rewrites from the whole map. An operation
  returns its error (\<open>None\<close> for nil) with its HTTP status, and the repository it leaves.
\<close>

record DataTracker =
  Subnets :: "(string \<times> Subnet) list"
  database :: "(string \<times> apiSubnet) list"

definition StatusOK :: nat where
  "StatusOK = 200"

definition StatusBadRequest :: nat where
  "StatusBadRequest = 400"

definition StatusNotFound :: nat where
  "StatusNotFound = 404"

definition StatusConflict :: nat where
  "StatusConflict = 409"

definition save_data :: "DataTracker \<Rightarrow> DataTracker" where
  "save_data dt = dt\<lparr>database := map (\<lambda>(k, s). (k, MarshalJSON s)) (Subnets dt)\<rparr>"

fun overlap_loop :: "(string \<times> Subnet) list \<Rightarrow> Subnet \<Rightarrow> bool" where
  "overlap_loop [] subnet = False"
| "overlap_loop ((k, es) # rest) subnet =
     (if Contains (Subnet es) (IP (Subnet subnet)) then True
      else if Contains (Subnet subnet) (IP (Subnet es)) then True
      else overlap_loop rest subnet)"

definition subnetsOverlap :: "DataTracker \<Rightarrow> Subnet \<Rightarrow> bool" where
  "subnetsOverlap dt subnet = overlap_loop (Subnets dt) subnet"

definition AddSubnet :: "DataTracker \<Rightarrow> Subnet \<Rightarrow> (string option \<times> nat) \<times> DataTracker" where
  "AddSubnet dt s =
     (case map_of (Subnets dt) (Name s) of
        Some lsubnet \<Rightarrow> ((Some ''Already exists'', StatusConflict), dt)
      | None \<Rightarrow>
          if subnetsOverlap dt s
          then ((Some ''Subnet overlaps with existing subnet'', StatusBadRequest), dt)
          else ((None, StatusOK),
                save_data (dt\<lparr>Subnets := AList.update (Name s) s (Subnets dt)\<rparr>)))"

definition RemoveSubnet :: "DataTracker \<Rightarrow> string \<Rightarrow> (string option \<times> nat) \<times> DataTracker" where
  "RemoveSubnet dt subnetName =
     (case map_of (Subnets dt) subnetName of
        None \<Rightarrow> ((Some ''Not Found'', StatusNotFound), dt)
      | Some lsubnet \<Rightarrow>
          ((None, StatusOK), save_data (dt\<lparr>Subnets := AList.delete subnetName (Subnets dt)\<rparr>)))"

definition ReplaceSubnet ::
  "DataTracker \<Rightarrow> string \<Rightarrow> Subnet \<Rightarrow> (string option \<times> nat) \<times> DataTracker" where
  "ReplaceSubnet dt subnetName subnet =
     (case map_of (Subnets dt) subnetName of
        None \<Rightarrow> ((Some ''Not Found'', StatusNotFound), dt)
      | Some lsubnet \<Rightarrow>
          (let subnet' = subnet\<lparr>Leases := Leases lsubnet,
                                Bindings := Bindings lsubnet,
                                ActiveBits := ActiveBits lsubnet\<rparr>;
               dt1 = dt\<lparr>Subnets := AList.delete (Name lsubnet) (Subnets dt)\<rparr>
           in if subnetsOverlap dt1 subnet'
              then ((Some ''Subnet overlaps with existing subnet'', StatusBadRequest),
                    dt1\<lparr>Subnets := AList.update (Name lsubnet) lsubnet (Subnets dt1)\<rparr>)
              else ((None, StatusOK),
                    save_data (dt1\<lparr>Subnets := AList.update (Name subnet') subnet' (Subnets dt1)\<rparr>))))"

text \<open>
  \<^verbatim>\<open>AddBinding\<close> and \<^verbatim>\<open>DeleteBinding\<close> change the subnet the map points to, so the entry
  of the map under \<open>subnetName\<close> is the changed subnet afterwards.
\<close>

definition AddBinding ::
  "DataTracker \<Rightarrow> string \<Rightarrow> Binding \<Rightarrow> (string option \<times> nat) \<times> DataTracker" where
  "AddBinding dt subnetName binding =
     (case map_of (Subnets dt) subnetName of
        None \<Rightarrow> ((Some ''Not Found'', StatusNotFound), dt)
      | Some lsubnet \<Rightarrow>
          (let bits1 =
                 (case map_of (Bindings lsubnet) (bMac binding) of
                    Some b \<Rightarrow>
                      if IPInRange (ActiveStart lsubnet) (ActiveEnd lsubnet) (bIp b)
                      then bitset_Clear (ActiveBits lsubnet)
                             (go_uint (IPRange (ActiveStart lsubnet) (bIp b) - 1))
                      else ActiveBits lsubnet
                  | None \<Rightarrow> ActiveBits lsubnet);
               bits2 =
                 (if IPInRange (ActiveStart lsubnet) (ActiveEnd lsubnet) (bIp binding)
                  then bitset_Set bits1 (go_uint (IPRange (ActiveStart lsubnet) (bIp binding) - 1))
                  else bits1);
               lsubnet' = lsubnet\<lparr>ActiveBits := bits2,
                                  Bindings := AList.update (bMac binding) binding (Bindings lsubnet)\<rparr>
           in ((None, StatusOK),
               save_data (dt\<lparr>Subnets := AList.update subnetName lsubnet' (Subnets dt)\<rparr>))))"

definition DeleteBinding ::
  "DataTracker \<Rightarrow> string \<Rightarrow> string \<Rightarrow> (string option \<times> nat) \<times> DataTracker" where
  "DeleteBinding dt subnetName mac =
     (case map_of (Subnets dt) subnetName of
        None \<Rightarrow> ((Some ''Subnet Not Found'', StatusNotFound), dt)
      | Some lsubnet \<Rightarrow>
          (case map_of (Bindings lsubnet) mac of
             None \<Rightarrow> ((Some ''Binding Not Found'', StatusNotFound), dt)
           | Some b \<Rightarrow>
               (let lsubnet' =
                      lsubnet\<lparr>ActiveBits :=
                          (if IPInRange (ActiveStart lsubnet) (ActiveEnd lsubnet) (bIp b)
                           then bitset_Clear (ActiveBits lsubnet)
                                  (go_uint (IPRange (ActiveStart lsubnet) (bIp b) - 1))
                           else ActiveBits lsubnet),
                        Bindings := AList.delete mac (Bindings lsubnet)\<rparr>
                in ((None, StatusOK),
                    save_data (dt\<lparr>Subnets := AList.update subnetName lsubnet' (Subnets dt)\<rparr>)))))"

section \<open>The properties of the specification, as predicates\<close>

text \<open>
  An address is held in a subnet when a lease or a binding of the subnet has it. The
  specification asks that, for every subnet, bit \<open>i\<close> of \<open>ActiveBits\<close> is set exactly when
  the address \<open>ActiveStart + i\<close> is held.
\<close>

definition ip_held :: "Subnet \<Rightarrow> ip4 \<Rightarrow> bool" where
  "ip_held s ip =
     (list_ex (\<lambda>(k, l). lIp l = ip) (Leases s) \<or> list_ex (\<lambda>(k, b). bIp b = ip) (Bindings s))"

definition bits_exact :: "Subnet \<Rightarrow> bool" where
  "bits_exact s =
     list_all (\<lambda>i. bitset_Test (ActiveBits s) i = ip_held s (IPAdd (ActiveStart s) (int i)))
       [0..<bitset_Len (ActiveBits s)]"

section \<open>A subnet of three addresses\<close>

text \<open>
  The network \<^verbatim>\<open>10.0.0.0/24\<close> with the active range \<^verbatim>\<open>10.0.0.10\<close> to \<^verbatim>\<open>10.0.0.12\<close> and
  an active lease time of 60 seconds: \<open>api0\<close> is its snapshot, \<open>net0\<close> the subnet that
  \<^verbatim>\<open>UnmarshalJSON\<close> makes of it. Two clients are then given leases (\<open>net1\<close>, \<open>net2\<close>) and
  the second one releases its lease (\<open>net3\<close>).
\<close>

definition api0 :: apiSubnet where
  "api0 = \<lparr>aName = ''lab'', aSubnet = (0x0A000005, 24), aNextServer = None,
     aActiveStart = Some 0x0A00000A, aActiveEnd = Some 0x0A00000C,
     aActiveLeaseTime = 60, aReservedLeaseTime = 0,
     aLeases = [], aBindings = [], aOptions = []\<rparr>"

definition net0 :: Subnet where
  "net0 = \<lparr>Name = ''lab'', Subnet = \<lparr>IP = 0x0A000000, Ones = 24\<rparr>, NextServer = None,
     ActiveStart = 0x0A00000A, ActiveEnd = 0x0A00000C,
     ActiveLeaseTime = 60 * Second, ActiveBits = [False, False, False],
     ReservedLeaseTime = 7200 * Second, Leases = [], Bindings = [],
     Options = [\<lparr>Code = 1, Value = ''255.255.255.0''\<rparr>,
                \<lparr>Code = 28, Value = ''10.0.0.255''\<rparr>]\<rparr>"

definition mac1 :: string where
  "mac1 = ''aa:bb:cc:00:00:01''"

definition mac2 :: string where
  "mac2 = ''aa:bb:cc:00:00:02''"

definition lease1 :: Lease where
  "lease1 = \<lparr>lIp = 0x0A00000A, lMac = mac1, lValid = True, lExpireTime = 0\<rparr>"

definition lease2 :: Lease where
  "lease2 = \<lparr>lIp = 0x0A00000B, lMac = mac2, lValid = True, lExpireTime = 0\<rparr>"

definition net1 :: Subnet where
  "net1 = fst (snd (find_or_get_info net0 100 mac1 None))"

definition net2 :: Subnet where
  "net2 = fst (snd (find_or_get_info net1 100 mac2 None))"

definition net3 :: Subnet where
  "net3 = fst (free_lease net2 mac2)"

section \<open>The repository, as the specification describes it\<close>

text \<open>
  Two networks overlap when one contains the base address of the other. In a well-formed
  repository every subnet is stored under its own name, as \<^verbatim>\<open>AddSubnet\<close> and
  \<^verbatim>\<open>ReplaceSubnet\<close> store it, and the keys are distinct, as those of a Go map are. A
  repository is persisted when \<^verbatim>\<open>database.json\<close> is the snapshot of its subnets.
  \<open>carried old new\<close> is the new subnet of \<^verbatim>\<open>ReplaceSubnet\<close> with the leases, the bindings
  and the bits of the old one.
\<close>

definition cidr_overlap :: "MyIPNet \<Rightarrow> MyIPNet \<Rightarrow> bool" where
  "cidr_overlap a b = (Contains a (IP b) \<or> Contains b (IP a))"

definition overlaps_any :: "(string \<times> Subnet) list \<Rightarrow> Subnet \<Rightarrow> bool" where
  "overlaps_any subnets s = list_ex (\<lambda>(k, es). cidr_overlap (Subnet es) (Subnet s)) subnets"

definition wf_repo :: "DataTracker \<Rightarrow> bool" where
  "wf_repo dt = (distinct (map fst (Subnets dt)) \<and> list_all (\<lambda>(k, s). Name s = k) (Subnets dt))"

definition persisted :: "DataTracker \<Rightarrow> bool" where
  "persisted dt = (database dt = map (\<lambda>(k, s). (k, MarshalJSON s)) (Subnets dt))"

definition carried :: "Subnet \<Rightarrow> Subnet \<Rightarrow> Subnet" where
  "carried old new = new\<lparr>Leases := Leases old, Bindings := Bindings old, ActiveBits := ActiveBits old\<rparr>"

section \<open>A repository of three subnets\<close>

text \<open>
  \<^verbatim>\<open>10.0.1.0/24\<close> is \<open>netB\<close>, \<^verbatim>\<open>10.0.2.0/24\<close> is \<open>netC\<close>, and \<^verbatim>\<open>10.0.0.128/25\<close>, which
  lies inside the network of \<open>net0\<close>, is \<open>net25\<close>. \<open>newB2\<close> and \<open>newB3\<close> take the name of
  \<open>netB\<close> with the networks \<^verbatim>\<open>10.0.2.0/24\<close> and \<^verbatim>\<open>10.0.3.0/24\<close>. The repositories are
  built with \<^verbatim>\<open>AddSubnet\<close> from the empty one.
\<close>

definition netB :: Subnet where
  "netB = net0\<lparr>Name := ''b'', Subnet := \<lparr>IP = 0x0A000100, Ones = 24\<rparr>,
     ActiveStart := 0x0A00010A, ActiveEnd := 0x0A00010C\<rparr>"

definition netC :: Subnet where
  "netC = net0\<lparr>Name := ''c'', Subnet := \<lparr>IP = 0x0A000200, Ones = 24\<rparr>,
     ActiveStart := 0x0A00020A, ActiveEnd := 0x0A00020C\<rparr>"

definition net25 :: Subnet where
  "net25 = net0\<lparr>Name := ''lab2'', Subnet := \<lparr>IP = 0x0A000080, Ones = 25\<rparr>,
     ActiveStart := 0x0A000082, ActiveEnd := 0x0A000084\<rparr>"

definition newB2 :: Subnet where
  "newB2 = net0\<lparr>Name := ''b'', Subnet := \<lparr>IP = 0x0A000200, Ones = 24\<rparr>,
     ActiveStart := 0x0A00020A, ActiveEnd := 0x0A00020C\<rparr>"

definition newB3 :: Subnet where
  "newB3 = net0\<lparr>Name := ''b'', Subnet := \<lparr>IP = 0x0A000300, Ones = 24\<rparr>,
     ActiveStart := 0x0A00030A, ActiveEnd := 0x0A00030C\<rparr>"

definition repo0 :: DataTracker where
  "repo0 = \<lparr>Subnets = [], database = []\<rparr>"

definition repo1 :: DataTracker where
  "repo1 = snd (AddSubnet repo0 net2)"

definition repo2 :: DataTracker where
  "repo2 = snd (AddSubnet repo1 netB)"

definition repo3 :: DataTracker where
  "repo3 = snd (AddSubnet repo2 netC)"

section \<open>Bindings for the subnet of three addresses\<close>

text \<open>
  \<open>bind1\<close> reserves \<^verbatim>\<open>10.0.0.10\<close>, the address the first client leases in \<open>net2\<close>, for
  that client; \<open>bind3\<close> reserves the free address \<^verbatim>\<open>10.0.0.12\<close> for a third client.
\<close>

definition bind1 :: Binding where
  "bind1 = \<lparr>bIp = 0x0A00000A, bMac = mac1, bOptions = [], bNextServer = None\<rparr>"

definition mac3 :: string where
  "mac3 = ''aa:bb:cc:00:00:03''"

definition bind3 :: Binding where
  "bind3 = \<lparr>bIp = 0x0A00000C, bMac = mac3, bOptions = [], bNextServer = None\<rparr>"

section \<open>The steps of the free-address search, as the specification describes them\<close>

text \<open>
  \<open>lowest_clear bs b\<close>: bit \<open>b\<close> is the lowest clear bit of the set. \<open>bits_full bs\<close>: the set
  has no clear bit. A lease is expired at a time when its expiry time is earlier.
  \<open>sweep s now\<close> is the subnet that the loop of \<^verbatim>\<open>getFreeIP\<close> over the leases leaves.
\<close>

definition lowest_clear :: "BitSet \<Rightarrow> nat \<Rightarrow> bool" where
  "lowest_clear bs b = (b < length bs \<and> \<not> bs ! b \<and> list_all (\<lambda>x. x) (take b bs))"

definition bits_full :: "BitSet \<Rightarrow> bool" where
  "bits_full bs = list_all (\<lambda>x. x) bs"

definition expired :: "time \<Rightarrow> string \<times> Lease \<Rightarrow> bool" where
  "expired now e = (lExpireTime (snd e) < now)"

definition sweep :: "Subnet \<Rightarrow> time \<Rightarrow> Subnet" where
  "sweep s now = fst (sweep_leases now (Leases s) (s, False))"

section \<open>The subnet of three addresses, exhausted\<close>

text \<open>
  A third client takes the last address (\<open>netF\<close>); then the first client has its lease
  renewed at time 100 for 60 seconds (\<open>netR\<close>), while the other two leases keep the zero
  expiry time.
\<close>

definition lease3 :: Lease where
  "lease3 = \<lparr>lIp = 0x0A00000C, lMac = mac3, lValid = True, lExpireTime = 0\<rparr>"

definition netF :: Subnet where
  "netF = fst (snd (find_or_get_info net2 100 mac3 None))"

definition netR :: Subnet where
  "netR = fst (update_lease_time netF 100 lease1 (60 * Second))"

section \<open>The round trip through the snapshot, as the specification describes it\<close>

text \<open>
  \<open>snapshot_ok\<close> collects what \<^verbatim>\<open>UnmarshalJSON\<close> establishes and the operations keep: the
  network is a prefix of at most 32 bits with a masked base address, the active range
  lies in it and does not end more than one address before its start, both lease times
  are whole, non-zero numbers of seconds within 64 bits, and the leases and bindings are
  stored under their own MAC with distinct keys. \<open>rebuilt_bits\<close> is the bit set the
  specification asks for on load: one bit for each address of the active range, set
  exactly when the address is held. \<open>synthetic_options\<close> are the subnet-mask and
  broadcast-address options of a network. \<open>netD\<close> is \<open>net2\<close> after the address of the
  first client has been bound and unbound.
\<close>

definition whole_seconds :: "duration \<Rightarrow> bool" where
  "whole_seconds d = (d mod Second = 0 \<and> d \<noteq> 0 \<and> - (2 ^ 63) \<le> d \<and> d < 2 ^ 63)"

definition snapshot_ok :: "Subnet \<Rightarrow> bool" where
  "snapshot_ok s =
     (Ones (Subnet s) \<le> 32 \<and>
      IP (Subnet s) AND CIDRMask (Ones (Subnet s)) = IP (Subnet s) \<and>
      Contains (Subnet s) (ActiveStart s) \<and>
      Contains (Subnet s) (ActiveEnd s) \<and>
      0 \<le> IPRange (ActiveStart s) (ActiveEnd s) \<and>
      whole_seconds (ActiveLeaseTime s) \<and>
      whole_seconds (ReservedLeaseTime s) \<and>
      distinct (map fst (Leases s)) \<and>
      list_all (\<lambda>(k, l). lMac l = k) (Leases s) \<and>
      distinct (map fst (Bindings s)) \<and>
      list_all (\<lambda>(k, b). bMac b = k) (Bindings s))"

definition rebuilt_bits :: "Subnet \<Rightarrow> BitSet" where
  "rebuilt_bits s =
     map (\<lambda>i. ip_held s (IPAdd (ActiveStart s) (int i)))
       [0..<nat (IPRange (ActiveStart s) (ActiveEnd s))]"

definition synthetic_options :: "MyIPNet \<Rightarrow> DhcpOption list" where
  "synthetic_options n =
     [\<lparr>Code = OptionSubnetMask, Value = ip_String (CIDRMask (Ones n))\<rparr>,
      \<lparr>Code = OptionBroadcastAddress, Value = ip_String (IP n OR NOT (CIDRMask (Ones n)))\<rparr>]"

definition netD :: Subnet where
  "netD = net2\<lparr>ActiveBits := [False, True, False]\<rparr>"

section \<open>Properties\<close>

subsection \<open>The subnet of three addresses, step by step\<close>

lemma load_api0: "UnmarshalJSON api0 = Inr net0"
  by code_simp

lemma net1_eq: "net1 = net0\<lparr>ActiveBits := [True, False, False], Leases := [(mac1, lease1)]\<rparr>"
  by code_simp

lemma net2_eq:
  "net2 = net0\<lparr>ActiveBits := [True, True, False], Leases := [(mac1, lease1), (mac2, lease2)]\<rparr>"
  by code_simp

lemma net3_eq: "net3 = net0\<lparr>ActiveBits := [True, True, False], Leases := [(mac1, lease1)]\<rparr>"
  unfolding net3_def net2_eq
  by (simp add: free_lease_def net0_def mac1_def mac2_def lease2_def IPInRange_def IPLess_def
      IPRange_def go_uint_def bitset_Clear_def AList.delete_eq)

subsection \<open>Association lists and the repository\<close>

lemma overlap_loop_iff: "overlap_loop al s = overlaps_any al s"
  by (induction al) (auto simp: overlaps_any_def cidr_overlap_def split: if_splits)

lemma overlaps_any_carried [simp]: "overlaps_any al (carried old new) = overlaps_any al new"
  by (simp add: overlaps_any_def carried_def)

lemma persisted_save_data [simp]: "persisted (save_data dt)"
  by (simp add: persisted_def save_data_def)

lemma Subnets_save_data [simp]: "Subnets (save_data dt) = Subnets dt"
  by (simp add: save_data_def)

lemma map_of_None_iff: "map_of al k = None \<longleftrightarrow> k \<notin> fst ` set al"
  by (simp add: map_of_eq_None_iff)

lemma map_of_Some_key: "map_of al k = Some v \<Longrightarrow> k \<in> fst ` set al"
  by (metis map_of_eq_None_iff option.distinct(1))

lemma map_of_update_fun: "map_of (AList.update k v al) = (map_of al)(k \<mapsto> v)"
  by (rule ext) (simp add: update_conv)

lemma map_of_delete_fun: "map_of (AList.delete k al) = (map_of al)(k := None)"
  by (rule ext) (simp add: delete_conv)

lemma wf_repo_key:
  "wf_repo dt \<Longrightarrow> map_of (Subnets dt) name = Some old \<Longrightarrow> Name old = name"
  by (auto simp: wf_repo_def list_all_iff dest: map_of_SomeD)

lemma Subnets_repo1: "Subnets repo1 = [(''lab'', net2)]"
  unfolding repo1_def net2_eq by code_simp

lemma Subnets_repo2: "Subnets repo2 = [(''lab'', net2), (''b'', netB)]"
  unfolding repo2_def repo1_def net2_eq by code_simp

lemma Subnets_repo3: "Subnets repo3 = [(''lab'', net2), (''b'', netB), (''c'', netC)]"
  unfolding repo3_def repo2_def repo1_def net2_eq by code_simp

lemma delete_after_update:
  "map_of al k = None \<Longrightarrow> AList.delete k (AList.update k v al) = al"
  by (induction al) (auto split: if_splits)

lemma update_same:
  "map_of al k = Some v \<Longrightarrow> AList.update k v al = al"
  by (induction al) auto

lemma update_twice:
  "AList.update k v (AList.update k w al) = AList.update k v al"
  by (induction al) auto

lemma Clear_after_Set:
  "i < bitset_Len bs \<Longrightarrow> \<not> bitset_Test bs i \<Longrightarrow> bitset_Clear (bitset_Set bs i) i = bs"
  by (simp add: bitset_Len_def bitset_Test_def bitset_Set_def bitset_Clear_def list_update_same_conv)

lemma idx_bind3: "go_uint (IPRange (ActiveStart net2) (bIp bind3) - 1) = 2"
  by (simp add: net2_eq net0_def bind3_def go_uint_def IPRange_def)

lemma idx_bind1: "go_uint (IPRange (ActiveStart net2) (bIp bind1) - 1) = 0"
  by (simp add: net2_eq net0_def bind1_def go_uint_def IPRange_def)

subsection \<open>The lowest clear bit and the sweep\<close>

lemma fcb_from_found:
  "i \<le> b \<Longrightarrow> b < length bs \<Longrightarrow> \<not> bs ! b \<Longrightarrow> (\<forall>j. i \<le> j \<and> j < b \<longrightarrow> bs ! j) \<Longrightarrow>
     firstClearBit_from bs i = (b, True)"
proof (induction bs i rule: firstClearBit_from.induct)
  case (1 bs i)
  show ?case
  proof (cases "i = b")
    case True
    have "firstClearBit_from bs b = (b, True)"
      using "1.prems"(2,3)
      by (simp add: firstClearBit_from.simps [of bs b] bitset_Len_def bitset_Test_def)
    with True show ?thesis
      by simp
  next
    case False
    with "1.prems" have i: "i < b" "bs ! i" "i < length bs"
      by auto
    have "firstClearBit_from bs (Suc i) = (b, True)"
      using i "1.prems" by (intro "1.IH") (auto simp: bitset_Len_def bitset_Test_def)
    with i show ?thesis
      by (simp add: firstClearBit_from.simps [of bs i] bitset_Len_def bitset_Test_def)
  qed
qed

lemma fcb_from_none:
  "(\<forall>j. i \<le> j \<and> j < length bs \<longrightarrow> bs ! j) \<Longrightarrow> firstClearBit_from bs i = (0, False)"
proof (induction bs i rule: firstClearBit_from.induct)
  case (1 bs i)
  show ?case
  proof (cases "i < length bs")
    case True
    with "1.prems" have "bs ! i"
      by auto
    moreover have "firstClearBit_from bs (Suc i) = (0, False)"
      using True \<open>bs ! i\<close> "1.prems"
      by (intro "1.IH") (auto simp: bitset_Len_def bitset_Test_def)
    ultimately show ?thesis
      using True
      by (simp add: firstClearBit_from.simps [of bs i] bitset_Len_def bitset_Test_def)
  next
    case False
    then show ?thesis
      by (simp add: firstClearBit_from.simps [of bs i] bitset_Len_def)
  qed
qed

lemma list_all_id_nth: "list_all (\<lambda>x. x) xs \<longleftrightarrow> (\<forall>j<length xs. xs ! j)"
  by (simp add: list_all_length)

lemma firstClearBit_lowest: "lowest_clear bs b \<Longrightarrow> firstClearBit bs = (b, True)"
  unfolding firstClearBit_def lowest_clear_def
  by (rule fcb_from_found) (auto simp: list_all_id_nth)

lemma firstClearBit_full: "bits_full bs \<Longrightarrow> firstClearBit bs = (0, False)"
  unfolding firstClearBit_def bits_full_def
  by (rule fcb_from_none) (auto simp: list_all_id_nth)

lemma not_full_lowest: "\<not> bits_full bs \<Longrightarrow> \<exists>b. lowest_clear bs b"
proof -
  assume "\<not> bits_full bs"
  then have ex: "\<exists>j. j < length bs \<and> \<not> bs ! j"
    by (auto simp: bits_full_def list_all_id_nth)
  define b where "b = (LEAST j. j < length bs \<and> \<not> bs ! j)"
  have "b < length bs \<and> \<not> bs ! b"
    unfolding b_def using ex by (rule LeastI_ex)
  moreover have "bs ! j" if "j < b" for j
    using not_less_Least [of j "\<lambda>j. j < length bs \<and> \<not> bs ! j"] that \<open>b < length bs \<and> \<not> bs ! b\<close>
    by (auto simp: b_def)
  ultimately have "lowest_clear bs b"
    by (auto simp: lowest_clear_def list_all_id_nth)
  then show ?thesis ..
qed

lemma Set_in_range: "b < length bs \<Longrightarrow> bitset_Set bs b = bs[b := True]"
  by (simp add: bitset_Set_def)

lemma Clear_props:
  "length (bitset_Clear bs i) = length bs"
  "j < length bs \<Longrightarrow> bitset_Clear bs i ! j \<Longrightarrow> bs ! j"
  by (auto simp: bitset_Clear_def nth_list_update split: if_splits)

lemma sweep_leases_props:
  "\<exists>bits.
     sweep_leases now es (sub, f) =
       (sub\<lparr>ActiveBits := bits,
            Leases := filter (\<lambda>(k, l). k \<notin> fst ` {e \<in> set es. expired now e}) (Leases sub)\<rparr>,
        f \<or> list_ex (expired now) es) \<and>
     length bits = length (ActiveBits sub) \<and>
     (\<forall>j<length (ActiveBits sub). bits ! j \<longrightarrow> ActiveBits sub ! j) \<and>
     (\<not> list_ex (expired now) es \<longrightarrow> bits = ActiveBits sub)"
proof (induction es arbitrary: sub f)
  case Nil
  have "sweep_leases now [] (sub, f) =
      (sub\<lparr>ActiveBits := ActiveBits sub,
           Leases := filter (\<lambda>(k, l). k \<notin> fst ` {e \<in> set []. expired now e}) (Leases sub)\<rparr>,
       f \<or> list_ex (expired now) [])"
    by simp
  then show ?case
    by blast
next
  case (Cons e es)
  obtain k lease where e: "e = (k, lease)"
    by (cases e)
  show ?case
  proof (cases "now > lExpireTime lease")
    case False
    then have ne: "\<not> expired now e"
      by (simp add: expired_def e)
    have s: "sweep_leases now (e # es) (sub, f) = sweep_leases now es (sub, f)"
      using False by (simp add: e)
    have c: "{x \<in> set (e # es). expired now x} = {x \<in> set es. expired now x}"
      using ne by auto
    have l: "list_ex (expired now) (e # es) = list_ex (expired now) es"
      using ne by simp
    show ?thesis
      unfolding s c l by (rule Cons.IH)
  next
    case True
    then have ex: "expired now e"
      by (simp add: expired_def e)
    define bits1 where "bits1 =
        (if IPInRange (ActiveStart sub) (ActiveEnd sub) (lIp lease)
         then bitset_Clear (ActiveBits sub) (go_uint (IPRange (lIp lease) (ActiveStart sub) - 1))
         else ActiveBits sub)"
    define sub1 where "sub1 = sub\<lparr>ActiveBits := bits1, Leases := AList.delete k (Leases sub)\<rparr>"
    have s: "sweep_leases now (e # es) (sub, f) = sweep_leases now es (sub1, True)"
      using True by (simp add: e sub1_def bits1_def)
    have len1: "length bits1 = length (ActiveBits sub)"
      by (simp add: bits1_def Clear_props)
    have mono1: "bits1 ! j \<Longrightarrow> ActiveBits sub ! j" if "j < length (ActiveBits sub)" for j
      using that by (auto simp: bits1_def Clear_props split: if_splits)
    from Cons.IH [of sub1 True] obtain bits where
      r: "sweep_leases now es (sub1, True) =
           (sub1\<lparr>ActiveBits := bits,
                 Leases := filter (\<lambda>(k, l). k \<notin> fst ` {e \<in> set es. expired now e}) (Leases sub1)\<rparr>,
            True)"
      and len: "length bits = length (ActiveBits sub1)"
      and mono: "\<forall>j<length (ActiveBits sub1). bits ! j \<longrightarrow> ActiveBits sub1 ! j"
      by auto
    have fl: "filter (\<lambda>(k, l). k \<notin> fst ` {e \<in> set es. expired now e}) (Leases sub1) =
        filter (\<lambda>(k, l). k \<notin> fst ` {x \<in> set (e # es). expired now x}) (Leases sub)"
    proof -
      have img: "fst ` {x \<in> set (e # es). expired now x} =
          insert k (fst ` {x \<in> set es. expired now x})"
        using ex by (force simp: e)
      have "filter (\<lambda>(k, l). k \<notin> fst ` {e \<in> set es. expired now e}) (Leases sub1) =
          filter (\<lambda>(k', l). k' \<notin> fst ` {e \<in> set es. expired now e})
               (filter (\<lambda>(k', l). k' \<noteq> k) (Leases sub))"
        by (simp add: sub1_def AList.delete_eq case_prod_beta' eq_commute)
      also have "\<dots> = filter (\<lambda>(k', l). k' \<notin> fst ` {x \<in> set (e # es). expired now x}) (Leases sub)"
        unfolding img by (auto intro!: filter_cong)
      finally show ?thesis .
    qed
    have "sweep_leases now (e # es) (sub, f) =
        (sub\<lparr>ActiveBits := bits,
             Leases := filter (\<lambda>(k, l). k \<notin> fst ` {x \<in> set (e # es). expired now x}) (Leases sub)\<rparr>,
         f \<or> list_ex (expired now) (e # es))"
      unfolding s r fl using ex by (simp add: sub1_def)
    moreover have "length bits = length (ActiveBits sub)"
      using len len1 by (simp add: sub1_def)
    moreover have "\<forall>j<length (ActiveBits sub). bits ! j \<longrightarrow> ActiveBits sub ! j"
      using mono len1 mono1 by (simp add: sub1_def)
    moreover have "list_ex (expired now) (e # es)"
      using ex by simp
    ultimately show ?thesis
      by blast
  qed
qed

lemma filter_expired_keys:
  assumes "distinct (map fst al)"
  shows "filter (\<lambda>(k, l). k \<notin> fst ` {e \<in> set al. P e}) al = filter (\<lambda>e. \<not> P e) al"
proof (rule filter_cong [OF refl])
  fix x
  assume x: "x \<in> set al"
  obtain k l where kl: "x = (k, l)"
    by (cases x)
  have "k \<in> fst ` {e \<in> set al. P e} \<longleftrightarrow> P x"
  proof
    assume "k \<in> fst ` {e \<in> set al. P e}"
    then obtain l' where l': "(k, l') \<in> set al" "P (k, l')"
      by auto
    from assms l'(1) x have "l' = l"
      unfolding kl by (rule eq_key_imp_eq_value)
    with l'(2) show "P x"
      by (simp add: kl)
  next
    assume "P x"
    with x show "k \<in> fst ` {e \<in> set al. P e}"
      by (force simp: kl)
  qed
  then show "(case x of (k, l) \<Rightarrow> k \<notin> fst ` {e \<in> set al. P e}) = (\<not> P x)"
    by (simp add: kl)
qed


lemma fcb_110: "firstClearBit [True, True, False] = (2, True)"
  by (simp add: firstClearBit_def firstClearBit_from.simps [of _ 0]
      firstClearBit_from.simps [of _ "Suc 0"] firstClearBit_from.simps [of _ "Suc (Suc 0)"]
      bitset_Len_def bitset_Test_def numeral_2_eq_2)

lemma netF_eq:
  "netF = net0\<lparr>ActiveBits := [True, True, True],
                Leases := [(mac1, lease1), (mac2, lease2), (mac3, lease3)]\<rparr>"
  unfolding netF_def net2_eq
  by (simp add: find_or_get_info_def slow_path_def getFreeIP_def fcb_110 IPAdd_def bitset_Set_def
      net0_def mac1_def mac2_def mac3_def lease3_def Let_def)

lemma netR_eq:
  "netR = net0\<lparr>ActiveBits := [True, True, True],
                Leases := [(mac1, lease1\<lparr>lExpireTime := 100 + 60 * Second\<rparr>), (mac2, lease2), (mac3, lease3)]\<rparr>"
  unfolding netR_def netF_eq
  by (simp add: update_lease_time_def lease1_def mac1_def mac2_def mac3_def)

lemma full_not_lowest: "bits_full bs \<Longrightarrow> \<not> lowest_clear bs b"
  by (auto simp: bits_full_def lowest_clear_def list_all_id_nth)

lemma sweep_eq:
  assumes "distinct (map fst (Leases s))"
  shows "\<exists>bits.
     sweep_leases now (Leases s) (s, False) =
       (s\<lparr>ActiveBits := bits, Leases := filter (\<lambda>e. \<not> expired now e) (Leases s)\<rparr>,
        list_ex (expired now) (Leases s)) \<and>
     length bits = length (ActiveBits s) \<and>
     (\<not> list_ex (expired now) (Leases s) \<longrightarrow> bits = ActiveBits s)"
  using sweep_leases_props [of now "Leases s" s False] filter_expired_keys [OF assms, of "expired now"]
  by auto

lemma sweep_netF_100:
  "sweep_leases 100 (Leases netF) (netF, False) =
     (netF\<lparr>ActiveBits := [False, True, True], Leases := []\<rparr>, True)"
  unfolding netF_eq
  by (simp add: net0_def lease1_def lease2_def lease3_def mac1_def mac2_def mac3_def
      IPInRange_def IPLess_def IPRange_def go_uint_def bitset_Clear_def AList.delete_eq)

lemma sweep_netF_0:
  "sweep_leases 0 (Leases netF) (netF, False) = (netF, False)"
  unfolding netF_eq
  by (simp add: net0_def lease1_def lease2_def lease3_def)

lemma sweep_netR_200:
  "sweep_leases 200 (Leases netR) (netR, False) =
     (netR\<lparr>Leases := [(mac1, lease1\<lparr>lExpireTime := 100 + 60 * Second\<rparr>)]\<rparr>, True)"
  unfolding netR_eq
  by (simp add: net0_def lease1_def lease2_def lease3_def mac1_def mac2_def mac3_def Second_def
      IPInRange_def IPLess_def IPRange_def go_uint_def bitset_Clear_def AList.delete_eq)

text \<open>
  The sweep has the call of \<^verbatim>\<open>IPRange\<close> with its arguments exchanged that \<^verbatim>\<open>free_lease\<close>
  has. In \<open>netR\<close> at time 200 the leases of the second and third client are expired; the
  sweep removes them, no bit is cleared, and \<^verbatim>\<open>getFreeIP\<close> finds no address although
  two of the three are free.
\<close>

lemma getFreeIP_sweep_keeps_bits:
  "map_of (Leases netR) mac2 = Some lease2 \<and> expired 200 (mac2, lease2) \<and>
   map_of (Leases netR) mac3 = Some lease3 \<and> expired 200 (mac3, lease3) \<and>
   getFreeIP netR 200 =
     (None, True, netR\<lparr>Leases := [(mac1, lease1\<lparr>lExpireTime := 100 + 60 * Second\<rparr>)]\<rparr>) \<and>
   ActiveBits netR = [True, True, True]"
proof -
  have full: "bits_full (ActiveBits netR)"
    by (simp add: netR_eq bits_full_def)
  have "getFreeIP netR 200 =
     (None, True, netR\<lparr>Leases := [(mac1, lease1\<lparr>lExpireTime := 100 + 60 * Second\<rparr>)]\<rparr>)"
    using firstClearBit_full [OF full]
    by (simp add: getFreeIP_def sweep_netR_200)
  then show ?thesis
    by (simp add: netR_eq net0_def expired_def lease2_def lease3_def mac1_def mac2_def mac3_def)
qed

subsection \<open>Every operation keeps the repository well formed\<close>

lemma wf_repo_empty: "wf_repo \<lparr>Subnets = [], database = []\<rparr>"
  by (simp add: wf_repo_def)

lemma named_update:
  "list_all (\<lambda>(k, s). Name s = k) al \<Longrightarrow> Name v = k \<Longrightarrow>
     list_all (\<lambda>(k, s). Name s = k) (AList.update k v al)"
  by (induction al) auto

lemma named_delete:
  "list_all (\<lambda>(k, s). Name s = k) al \<Longrightarrow> list_all (\<lambda>(k, s). Name s = k) (AList.delete k al)"
  by (induction al) auto

lemma wf_update:
  "distinct (map fst al) \<Longrightarrow> list_all (\<lambda>(k, s). Name s = k) al \<Longrightarrow> Name v = k \<Longrightarrow>
     distinct (map fst (AList.update k v al)) \<and> list_all (\<lambda>(k, s). Name s = k) (AList.update k v al)"
  by (simp add: distinct_update named_update)

lemma wf_delete:
  "distinct (map fst al) \<Longrightarrow> list_all (\<lambda>(k, s). Name s = k) al \<Longrightarrow>
     distinct (map fst (AList.delete k al)) \<and> list_all (\<lambda>(k, s). Name s = k) (AList.delete k al)"
  by (simp add: distinct_delete named_delete)

lemma wf_repo_AddSubnet: "wf_repo dt \<Longrightarrow> wf_repo (snd (AddSubnet dt s))"
  using wf_update [of "Subnets dt" s "Name s"]
  by (auto simp: AddSubnet_def wf_repo_def split: option.splits)

lemma wf_repo_RemoveSubnet: "wf_repo dt \<Longrightarrow> wf_repo (snd (RemoveSubnet dt name))"
  using wf_delete [of "Subnets dt" name]
  by (auto simp: RemoveSubnet_def wf_repo_def split: option.splits)

lemma wf_repo_ReplaceSubnet: "wf_repo dt \<Longrightarrow> wf_repo (snd (ReplaceSubnet dt name new))"
proof (cases "map_of (Subnets dt) name")
  case None
  assume "wf_repo dt"
  with None show ?thesis
    by (simp add: ReplaceSubnet_def)
next
  case (Some old)
  assume wf: "wf_repo dt"
  then have key: "Name old = name"
    using Some by (rule wf_repo_key)
  from wf have d: "distinct (map fst (AList.delete name (Subnets dt)))"
    "list_all (\<lambda>(k, s). Name s = k) (AList.delete name (Subnets dt))"
    using wf_delete [of "Subnets dt" name] by (simp_all add: wf_repo_def)
  show ?thesis
    using Some key wf_update [OF d, of old name] wf_update [OF d, of "carried old new" "Name new"]
    by (simp add: ReplaceSubnet_def Let_def wf_repo_def carried_def)
qed

lemma wf_repo_AddBinding: "wf_repo dt \<Longrightarrow> wf_repo (snd (AddBinding dt name b))"
proof (cases "map_of (Subnets dt) name")
  case None
  assume "wf_repo dt"
  with None show ?thesis
    by (simp add: AddBinding_def)
next
  case (Some old)
  assume wf: "wf_repo dt"
  then have key: "Name old = name"
    using Some by (rule wf_repo_key)
  from wf have d: "distinct (map fst (Subnets dt))" "list_all (\<lambda>(k, s). Name s = k) (Subnets dt)"
    by (simp_all add: wf_repo_def)
  show ?thesis
    using Some key wf_update [OF d, of _ name]
    by (simp add: AddBinding_def Let_def wf_repo_def)
qed

lemma wf_repo_DeleteBinding: "wf_repo dt \<Longrightarrow> wf_repo (snd (DeleteBinding dt name mac))"
proof (cases "map_of (Subnets dt) name")
  case None
  assume "wf_repo dt"
  with None show ?thesis
    by (simp add: DeleteBinding_def)
next
  case (Some old)
  assume wf: "wf_repo dt"
  then have key: "Name old = name"
    using Some by (rule wf_repo_key)
  from wf have d: "distinct (map fst (Subnets dt))" "list_all (\<lambda>(k, s). Name s = k) (Subnets dt)"
    by (simp_all add: wf_repo_def)
  show ?thesis
    using Some key wf wf_update [OF d, of _ name]
    by (simp add: DeleteBinding_def Let_def wf_repo_def split: option.splits)
qed

subsection \<open>Binding and unbinding a leased address\<close>

lemma bind_unbind_leased:
  "map_of (Subnets repo1) ''lab'' = Some net2 \<and>
   map_of (Leases net2) mac1 = Some lease1 \<and>
   lIp lease1 = bIp bind1 \<and>
   IPInRange (ActiveStart net2) (ActiveEnd net2) (bIp bind1) \<and>
   map_of (Bindings net2) (bMac bind1) = None \<and>
   ActiveBits net2 = [True, True, False] \<and>
   fst (AddBinding repo1 ''lab'' bind1) = (None, StatusOK) \<and>
   DeleteBinding (snd (AddBinding repo1 ''lab'' bind1)) ''lab'' (bMac bind1) =
     ((None, StatusOK),
      save_data (repo1\<lparr>Subnets := [(''lab'', net2\<lparr>ActiveBits := [False, True, False]\<rparr>)]\<rparr>)) \<and>
   net2\<lparr>ActiveBits := [False, True, False]\<rparr> \<noteq> net2"
proof -
  have a: "map_of (Subnets repo1) ''lab'' = Some net2"
    unfolding Subnets_repo1 by simp
  have b: "map_of (Leases net2) mac1 = Some lease1"
    unfolding net2_eq by code_simp
  have c: "lIp lease1 = bIp bind1"
    by (simp add: lease1_def bind1_def)
  have d: "IPInRange (ActiveStart net2) (ActiveEnd net2) (bIp bind1)"
    unfolding net2_eq by code_simp
  have e: "map_of (Bindings net2) (bMac bind1) = None"
    by (simp add: net2_eq net0_def)
  have f: "ActiveBits net2 = [True, True, False]"
    by (simp add: net2_eq)
  define s1 where "s1 = net2\<lparr>Bindings := [(mac1, bind1)]\<rparr>"
  have m: "bMac bind1 = mac1"
    by (simp add: bind1_def)
  have add: "AddBinding repo1 ''lab'' bind1 =
      ((None, StatusOK), save_data (repo1\<lparr>Subnets := [(''lab'', s1)]\<rparr>))"
    using a d e
    by (simp add: AddBinding_def Let_def idx_bind1 f bitset_Set_def s1_def Subnets_repo1)
       (simp add: net2_eq net0_def m)
  have s1f: "ActiveStart s1 = ActiveStart net2" "ActiveEnd s1 = ActiveEnd net2"
    "ActiveBits s1 = [True, True, False]" "map_of (Bindings s1) mac1 = Some bind1"
    by (simp_all add: s1_def f)
  have s1d: "s1\<lparr>ActiveBits := [False, True, False], Bindings := AList.delete mac1 (Bindings s1)\<rparr> =
      net2\<lparr>ActiveBits := [False, True, False]\<rparr>"
    by (simp add: s1_def net2_eq net0_def AList.delete_eq)
  have del: "DeleteBinding (save_data (repo1\<lparr>Subnets := [(''lab'', s1)]\<rparr>)) ''lab'' (bMac bind1) =
      ((None, StatusOK),
       save_data (repo1\<lparr>Subnets := [(''lab'', net2\<lparr>ActiveBits := [False, True, False]\<rparr>)]\<rparr>))"
    using d by (simp add: DeleteBinding_def Let_def m s1f idx_bind1 bitset_Clear_def s1d)
       (simp add: save_data_def)
  have g: "net2\<lparr>ActiveBits := [False, True, False]\<rparr> \<noteq> net2"
    by (simp add: net2_eq net0_def)
  show ?thesis
    using a b c d e f g by (simp add: add del)
qed

subsection \<open>Loading a snapshot\<close>

lemma wrap_int64_id: "- (2 ^ 63) \<le> x \<Longrightarrow> x < 2 ^ 63 \<Longrightarrow> wrap_int64 x = x"
  by (simp add: wrap_int64_def int_word_sint)

lemma whole_seconds_round: "whole_seconds d \<Longrightarrow> wrap_int64 (int_Seconds d * Second) = d"
proof -
  assume w: "whole_seconds d"
  then have m: "d mod Second = 0"
    by (simp add: whole_seconds_def)
  have pos: "(0::int) < Second"
    by (simp add: Second_def)
  have "int_Seconds d * Second = d"
  proof (cases "0 \<le> d")
    case True
    then have "int_Seconds d = d div Second"
      using w by (simp add: int_Seconds_def whole_seconds_def sgn_if)
    with m show ?thesis
      by (simp add: mod_eq_0_iff_dvd)
  next
    case False
    have "(- d) mod Second = 0"
      using m by (simp add: mod_eq_0_iff_dvd)
    moreover have "int_Seconds d = - ((- d) div Second)"
      using False by (simp add: int_Seconds_def sgn_if)
    ultimately show ?thesis
      by (simp add: mod_eq_0_iff_dvd)
  qed
  with w show ?thesis
    by (simp add: whole_seconds_def wrap_int64_id)
qed

lemma whole_seconds_nonzero: "whole_seconds d \<Longrightarrow> d \<noteq> 0"
  by (simp add: whole_seconds_def)

lemma update_fresh: "k \<notin> fst ` set al \<Longrightarrow> AList.update k v al = al @ [(k, v)]"
  by (induction al) auto

lemma foldl_update_leases:
  "distinct (map fst (acc @ al)) \<Longrightarrow> list_all (\<lambda>(k, l). lMac l = k) al \<Longrightarrow>
     foldl (\<lambda>m v. AList.update (lMac v) v m) acc (map snd al) = acc @ al"
proof (induction al arbitrary: acc)
  case Nil
  then show ?case by simp
next
  case (Cons e al)
  obtain k l where e: "e = (k, l)"
    by (cases e)
  from Cons.prems have k: "lMac l = k" "k \<notin> fst ` set acc"
    by (auto simp: e)
  have "foldl (\<lambda>m v. AList.update (lMac v) v m) (acc @ [e]) (map snd al) = (acc @ [e]) @ al"
    using Cons.prems by (intro Cons.IH) (auto simp: e)
  then show ?case
    using k by (simp add: e update_fresh)
qed

lemma foldl_update_bindings:
  "distinct (map fst (acc @ al)) \<Longrightarrow> list_all (\<lambda>(k, b). bMac b = k) al \<Longrightarrow>
     foldl (\<lambda>m v. AList.update (bMac v) v m) acc (map snd al) = acc @ al"
proof (induction al arbitrary: acc)
  case Nil
  then show ?case by simp
next
  case (Cons e al)
  obtain k b where e: "e = (k, b)"
    by (cases e)
  from Cons.prems have k: "bMac b = k" "k \<notin> fst ` set acc"
    by (auto simp: e)
  have "foldl (\<lambda>m v. AList.update (bMac v) v m) (acc @ [e]) (map snd al) = (acc @ [e]) @ al"
    using Cons.prems by (intro Cons.IH) (auto simp: e)
  then show ?case
    using k by (simp add: e update_fresh)
qed

lemma in_range_le: "IPInRange start stop ip \<longleftrightarrow> uint start \<le> uint ip \<and> uint ip \<le> uint stop"
  by (auto simp: IPInRange_def IPLess_def word_le_def word_less_def)

lemma in_range_idx:
  assumes "IPInRange start stop ip"
  shows "go_uint (IPRange start ip - 1) = nat (uint ip - uint start)"
    and "nat (uint ip - uint start) < nat (IPRange start stop)"
proof -
  from assms have le: "uint start \<le> uint ip" "uint ip \<le> uint stop"
    by (simp_all add: in_range_le)
  have "uint ip < 2 ^ 32"
    using uint_lt2p [of ip] by simp
  moreover have "0 \<le> uint start"
    by simp
  moreover have "(2::int) ^ 32 < 2 ^ 64"
    by simp
  ultimately have "uint ip - uint start < 2 ^ 64" "0 \<le> uint ip - uint start"
    using le by linarith+
  then show "go_uint (IPRange start ip - 1) = nat (uint ip - uint start)"
    by (simp add: go_uint_def IPRange_def)
  show "nat (uint ip - uint start) < nat (IPRange start stop)"
    using le by (simp add: IPRange_def)
qed

lemma idx_is_offset:
  assumes "int i < IPRange start stop"
  shows "(IPInRange start stop ip \<and> nat (uint ip - uint start) = i) \<longleftrightarrow> ip = IPAdd start (int i)"
proof
  assume a: "IPInRange start stop ip \<and> nat (uint ip - uint start) = i"
  then have "uint ip = uint start + int i"
    by (auto simp: in_range_le)
  then have "word_of_int (uint ip) = (word_of_int (uint start + int i) :: ip4)"
    by simp
  then show "ip = IPAdd start (int i)"
    by (simp add: IPAdd_def)
next
  assume b: "ip = IPAdd start (int i)"
  have bound: "uint start + int i \<le> uint stop"
    using assms by (simp add: IPRange_def)
  have "uint stop < 2 ^ 32"
    using uint_lt2p [of stop] by simp
  with bound have lt: "uint start + int i < 2 ^ 32"
    by simp
  have "uint (word_of_nat i :: ip4) = int i mod 2 ^ 32"
    by (simp add: uint_nat unat_of_nat zmod_int)
  then have "uint ip = (uint start + int i) mod 2 ^ 32"
    by (simp add: b IPAdd_def uint_word_ariths mod_add_right_eq)
  also have "\<dots> = uint start + int i"
    using lt by simp
  finally have u: "uint ip = uint start + int i" .
  with bound show "IPInRange start stop ip \<and> nat (uint ip - uint start) = i"
    by (simp add: in_range_le)
qed

lemma Set_props:
  "i < length bs \<Longrightarrow> length (bitset_Set bs i) = length bs"
  "i < length bs \<Longrightarrow> j < length bs \<Longrightarrow> bitset_Set bs i ! j = (bs ! j \<or> j = i)"
  by (auto simp: bitset_Set_def nth_list_update)

lemma load_leases_props:
  "length (ActiveBits s0) = nat (IPRange (ActiveStart s0) (ActiveEnd s0)) \<Longrightarrow>
   \<exists>bits.
     load_leases vs s0 =
       s0\<lparr>Leases := foldl (\<lambda>m v. AList.update (lMac v) v m) (Leases s0) vs, ActiveBits := bits\<rparr> \<and>
     length bits = length (ActiveBits s0) \<and>
     (\<forall>i<length (ActiveBits s0).
        bits ! i = (ActiveBits s0 ! i \<or> IPAdd (ActiveStart s0) (int i) \<in> lIp ` set vs))"
proof (induction vs arbitrary: s0)
  case Nil
  have "load_leases [] s0 =
      s0\<lparr>Leases := foldl (\<lambda>m v. AList.update (lMac v) v m) (Leases s0) [],
         ActiveBits := ActiveBits s0\<rparr>"
    by simp
  then show ?case
    by (intro exI [of _ "ActiveBits s0"]) simp
next
  case (Cons v vs)
  define bits1 where "bits1 =
      (if IPInRange (ActiveStart s0) (ActiveEnd s0) (lIp v)
       then bitset_Set (ActiveBits s0) (go_uint (IPRange (ActiveStart s0) (lIp v) - 1))
       else ActiveBits s0)"
  define s1 where "s1 = s0\<lparr>Leases := AList.update (lMac v) v (Leases s0), ActiveBits := bits1\<rparr>"
  have step: "load_leases (v # vs) s0 = load_leases vs s1"
    by (simp add: s1_def bits1_def)
  have idx: "go_uint (IPRange (ActiveStart s0) (lIp v) - 1) < length (ActiveBits s0)"
    if "IPInRange (ActiveStart s0) (ActiveEnd s0) (lIp v)"
    using in_range_idx [OF that] Cons.prems by simp
  have len1: "length bits1 = length (ActiveBits s0)"
    using idx by (simp add: bits1_def Set_props)
  have nth1: "bits1 ! i = (ActiveBits s0 ! i \<or> IPAdd (ActiveStart s0) (int i) = lIp v)"
    if "i < length (ActiveBits s0)" for i
  proof -
    have r: "int i < IPRange (ActiveStart s0) (ActiveEnd s0)"
      using that Cons.prems by simp
    show ?thesis
    proof (cases "IPInRange (ActiveStart s0) (ActiveEnd s0) (lIp v)")
      case True
      then show ?thesis
        using that idx [OF True] idx_is_offset [OF r, of "lIp v"]
        by (auto simp: bits1_def Set_props in_range_idx(1))
    next
      case False
      then show ?thesis
        using idx_is_offset [OF r, of "lIp v"] by (auto simp: bits1_def)
    qed
  qed
  have pre: "length (ActiveBits s1) = nat (IPRange (ActiveStart s1) (ActiveEnd s1))"
    using Cons.prems len1 by (simp add: s1_def)
  from Cons.IH [OF pre] obtain bits where
    r: "load_leases vs s1 =
        s1\<lparr>Leases := foldl (\<lambda>m v. AList.update (lMac v) v m) (Leases s1) vs, ActiveBits := bits\<rparr>"
    and len: "length bits = length (ActiveBits s1)"
    and nth: "\<forall>i<length (ActiveBits s1).
        bits ! i = (ActiveBits s1 ! i \<or> IPAdd (ActiveStart s1) (int i) \<in> lIp ` set vs)"
    by blast
  have "load_leases (v # vs) s0 =
      s0\<lparr>Leases := foldl (\<lambda>m v. AList.update (lMac v) v m) (Leases s0) (v # vs), ActiveBits := bits\<rparr>"
    unfolding step r by (simp add: s1_def)
  moreover have "length bits = length (ActiveBits s0)"
    using len len1 by (simp add: s1_def)
  moreover have "\<forall>i<length (ActiveBits s0).
      bits ! i = (ActiveBits s0 ! i \<or> IPAdd (ActiveStart s0) (int i) \<in> lIp ` set (v # vs))"
    using nth nth1 len1 by (auto simp: s1_def)
  ultimately show ?case
    by blast
qed

lemma load_bindings_props:
  "length (ActiveBits s0) = nat (IPRange (ActiveStart s0) (ActiveEnd s0)) \<Longrightarrow>
   \<exists>bits.
     load_bindings vs s0 =
       s0\<lparr>Bindings := foldl (\<lambda>m v. AList.update (bMac v) v m) (Bindings s0) vs, ActiveBits := bits\<rparr> \<and>
     length bits = length (ActiveBits s0) \<and>
     (\<forall>i<length (ActiveBits s0).
        bits ! i = (ActiveBits s0 ! i \<or> IPAdd (ActiveStart s0) (int i) \<in> bIp ` set vs))"
proof (induction vs arbitrary: s0)
  case Nil
  have "load_bindings [] s0 =
      s0\<lparr>Bindings := foldl (\<lambda>m v. AList.update (bMac v) v m) (Bindings s0) [],
         ActiveBits := ActiveBits s0\<rparr>"
    by simp
  then show ?case
    by (intro exI [of _ "ActiveBits s0"]) simp
next
  case (Cons v vs)
  define bits1 where "bits1 =
      (if IPInRange (ActiveStart s0) (ActiveEnd s0) (bIp v)
       then bitset_Set (ActiveBits s0) (go_uint (IPRange (ActiveStart s0) (bIp v) - 1))
       else ActiveBits s0)"
  define s1 where "s1 = s0\<lparr>Bindings := AList.update (bMac v) v (Bindings s0), ActiveBits := bits1\<rparr>"
  have step: "load_bindings (v # vs) s0 = load_bindings vs s1"
    by (simp add: s1_def bits1_def)
  have idx: "go_uint (IPRange (ActiveStart s0) (bIp v) - 1) < length (ActiveBits s0)"
    if "IPInRange (ActiveStart s0) (ActiveEnd s0) (bIp v)"
    using in_range_idx [OF that] Cons.prems by simp
  have len1: "length bits1 = length (ActiveBits s0)"
    using idx by (simp add: bits1_def Set_props)
  have nth1: "bits1 ! i = (ActiveBits s0 ! i \<or> IPAdd (ActiveStart s0) (int i) = bIp v)"
    if "i < length (ActiveBits s0)" for i
  proof -
    have r: "int i < IPRange (ActiveStart s0) (ActiveEnd s0)"
      using that Cons.prems by simp
    show ?thesis
    proof (cases "IPInRange (ActiveStart s0) (ActiveEnd s0) (bIp v)")
      case True
      then show ?thesis
        using that idx [OF True] idx_is_offset [OF r, of "bIp v"]
        by (auto simp: bits1_def Set_props in_range_idx(1))
    next
      case False
      then show ?thesis
        using idx_is_offset [OF r, of "bIp v"] by (auto simp: bits1_def)
    qed
  qed
  have pre: "length (ActiveBits s1) = nat (IPRange (ActiveStart s1) (ActiveEnd s1))"
    using Cons.prems len1 by (simp add: s1_def)
  from Cons.IH [OF pre] obtain bits where
    r: "load_bindings vs s1 =
        s1\<lparr>Bindings := foldl (\<lambda>m v. AList.update (bMac v) v m) (Bindings s1) vs, ActiveBits := bits\<rparr>"
    and len: "length bits = length (ActiveBits s1)"
    and nth: "\<forall>i<length (ActiveBits s1).
        bits ! i = (ActiveBits s1 ! i \<or> IPAdd (ActiveStart s1) (int i) \<in> bIp ` set vs)"
    by blast
  have "load_bindings (v # vs) s0 =
      s0\<lparr>Bindings := foldl (\<lambda>m v. AList.update (bMac v) v m) (Bindings s0) (v # vs), ActiveBits := bits\<rparr>"
    unfolding step r by (simp add: s1_def)
  moreover have "length bits = length (ActiveBits s0)"
    using len len1 by (simp add: s1_def)
  moreover have "\<forall>i<length (ActiveBits s0).
      bits ! i = (ActiveBits s0 ! i \<or> IPAdd (ActiveStart s0) (int i) \<in> bIp ` set (v # vs))"
    using nth nth1 len1 by (auto simp: s1_def)
  ultimately show ?case
    by blast
qed


lemma held_iff:
  "ip_held s ip \<longleftrightarrow> ip \<in> lIp ` set (map snd (Leases s)) \<or> ip \<in> bIp ` set (map snd (Bindings s))"
  by (force simp: ip_held_def list_ex_iff)

lemma round_trip_eq:
  assumes "snapshot_ok s"
  shows "UnmarshalJSON (MarshalJSON s) =
    Inr (s\<lparr>ActiveBits := rebuilt_bits s, Options := Options s @ synthetic_options (Subnet s)\<rparr>)"
proof -
  define n where "n = nat (IPRange (ActiveStart s) (ActiveEnd s))"
  define s1 where "s1 =
      \<lparr>Name = Name s, Subnet = Subnet s, NextServer = NextServer s,
       ActiveStart = ActiveStart s, ActiveEnd = ActiveEnd s,
       ActiveLeaseTime = ActiveLeaseTime s, ActiveBits = bitset_New (go_uint (IPRange (ActiveStart s) (ActiveEnd s))),
       ReservedLeaseTime = ReservedLeaseTime s, Leases = [], Bindings = [], Options = []\<rparr>"
  from assms have ok:
    "Ones (Subnet s) \<le> 32"
    "IP (Subnet s) AND CIDRMask (Ones (Subnet s)) = IP (Subnet s)"
    "Contains (Subnet s) (ActiveStart s)"
    "Contains (Subnet s) (ActiveEnd s)"
    "0 \<le> IPRange (ActiveStart s) (ActiveEnd s)"
    "whole_seconds (ActiveLeaseTime s)"
    "whole_seconds (ReservedLeaseTime s)"
    "distinct (map fst (Leases s))"
    "list_all (\<lambda>(k, l). lMac l = k) (Leases s)"
    "distinct (map fst (Bindings s))"
    "list_all (\<lambda>(k, b). bMac b = k) (Bindings s)"
    by (simp_all add: snapshot_ok_def)
  have "IPRange (ActiveStart s) (ActiveEnd s) \<le> uint (ActiveEnd s) + 1"
    by (simp add: IPRange_def)
  moreover have "uint (ActiveEnd s) < 2 ^ 32"
    using uint_lt2p [of "ActiveEnd s"] by simp
  moreover have "(2::int) ^ 32 + 1 < 2 ^ 64"
    by simp
  ultimately have "IPRange (ActiveStart s) (ActiveEnd s) < 2 ^ 64"
    by linarith
  with ok(5) have gu: "go_uint (IPRange (ActiveStart s) (ActiveEnd s)) = n"
    by (simp add: go_uint_def n_def)
  have cidr: "ParseCIDR (IP (Subnet s), Ones (Subnet s)) = Some (Subnet s)"
    using ok(1,2) by (simp add: ParseCIDR_def)
  have len1: "length (ActiveBits s1) = nat (IPRange (ActiveStart s1) (ActiveEnd s1))"
    by (simp add: s1_def gu bitset_New_def n_def)
  from load_leases_props [OF len1, of "map snd (Leases s)"] obtain bitsL where
    l: "load_leases (map snd (Leases s)) s1 =
          s1\<lparr>Leases := foldl (\<lambda>m v. AList.update (lMac v) v m) (Leases s1) (map snd (Leases s)),
             ActiveBits := bitsL\<rparr>"
    and lenL: "length bitsL = length (ActiveBits s1)"
    and nthL: "\<forall>i<length (ActiveBits s1).
        bitsL ! i = (ActiveBits s1 ! i \<or> IPAdd (ActiveStart s1) (int i) \<in> lIp ` set (map snd (Leases s)))"
    by blast
  have fl: "foldl (\<lambda>m v. AList.update (lMac v) v m) (Leases s1) (map snd (Leases s)) = Leases s"
    using foldl_update_leases [of "[]" "Leases s"] ok(8,9) by (simp add: s1_def)
  define s2 where "s2 = s1\<lparr>Leases := Leases s, ActiveBits := bitsL\<rparr>"
  have l2: "load_leases (map snd (Leases s)) s1 = s2"
    by (simp add: l fl s2_def)
  have len2: "length (ActiveBits s2) = nat (IPRange (ActiveStart s2) (ActiveEnd s2))"
    using len1 lenL by (simp add: s2_def s1_def)
  from load_bindings_props [OF len2, of "map snd (Bindings s)"] obtain bitsB where
    b: "load_bindings (map snd (Bindings s)) s2 =
          s2\<lparr>Bindings := foldl (\<lambda>m v. AList.update (bMac v) v m) (Bindings s2) (map snd (Bindings s)),
             ActiveBits := bitsB\<rparr>"
    and lenB: "length bitsB = length (ActiveBits s2)"
    and nthB: "\<forall>i<length (ActiveBits s2).
        bitsB ! i = (ActiveBits s2 ! i \<or> IPAdd (ActiveStart s2) (int i) \<in> bIp ` set (map snd (Bindings s)))"
    by blast
  have fb: "foldl (\<lambda>m v. AList.update (bMac v) v m) (Bindings s2) (map snd (Bindings s)) = Bindings s"
    using foldl_update_bindings [of "[]" "Bindings s"] ok(10,11) by (simp add: s2_def s1_def)
  have lens: "length bitsL = n" "length bitsB = n"
    using lenL lenB by (simp_all add: s2_def s1_def gu bitset_New_def)
  have bits: "bitsB = rebuilt_bits s"
  proof (rule nth_equalityI)
    show "length bitsB = length (rebuilt_bits s)"
      by (simp add: lens rebuilt_bits_def n_def)
    fix i
    assume "i < length bitsB"
    then have i: "i < n"
      by (simp add: lens)
    have "bitsL ! i = (IPAdd (ActiveStart s) (int i) \<in> lIp ` set (map snd (Leases s)))"
      using nthL i by (simp add: s1_def gu bitset_New_def)
    moreover have "bitsB ! i =
        (bitsL ! i \<or> IPAdd (ActiveStart s) (int i) \<in> bIp ` set (map snd (Bindings s)))"
      using nthB i lens by (simp add: s2_def s1_def)
    ultimately show "bitsB ! i = rebuilt_bits s ! i"
      using i by (simp add: rebuilt_bits_def n_def held_iff)
  qed
  have "load_bindings (map snd (Bindings s)) s2 =
      s2\<lparr>Bindings := Bindings s, ActiveBits := rebuilt_bits s\<rparr>"
    using b fb bits by simp
  also have "\<dots> = s\<lparr>ActiveBits := rebuilt_bits s, Options := []\<rparr>"
    by (cases s) (simp add: s2_def s1_def)
  finally have b3: "load_bindings (map snd (Bindings s)) s2 =
      s\<lparr>ActiveBits := rebuilt_bits s, Options := []\<rparr>" .
  have lt: "wrap_int64 (int_Seconds (ActiveLeaseTime s) * Second) = ActiveLeaseTime s"
    "wrap_int64 (int_Seconds (ReservedLeaseTime s) * Second) = ReservedLeaseTime s"
    using ok(6,7) by (simp_all add: whole_seconds_round)
  have nz: "ActiveLeaseTime s \<noteq> 0" "ReservedLeaseTime s \<noteq> 0"
    using ok(6,7) by (simp_all add: whole_seconds_nonzero)
  have neg: "\<not> IPRange (ActiveStart s) (ActiveEnd s) < 0"
    using ok(5) by simp
  show ?thesis
    unfolding UnmarshalJSON_def
    using ok(3,4) neg nz
    by (simp add: MarshalJSON_def cidr lt Let_def s1_def [symmetric] l2 b3 synthetic_options_def)
qed

lemma length_rebuilt: "length (rebuilt_bits s) = nat (IPRange (ActiveStart s) (ActiveEnd s))"
  by (simp add: rebuilt_bits_def)

lemma nth_rebuilt:
  "i < length (rebuilt_bits s) \<Longrightarrow> rebuilt_bits s ! i = ip_held s (IPAdd (ActiveStart s) (int i))"
  by (simp add: rebuilt_bits_def)

lemma rebuilt_same_iff:
  "rebuilt_bits s = ActiveBits s \<longleftrightarrow>
     bitset_Len (ActiveBits s) = nat (IPRange (ActiveStart s) (ActiveEnd s)) \<and> bits_exact s"
proof
  assume eq: "rebuilt_bits s = ActiveBits s"
  have "bitset_Test (ActiveBits s) i = ip_held s (IPAdd (ActiveStart s) (int i))"
    if "i < length (ActiveBits s)" for i
    using that nth_rebuilt [of i s] by (simp add: eq bitset_Test_def)
  then have "bits_exact s"
    by (simp add: bits_exact_def list_all_iff bitset_Len_def)
  moreover have "bitset_Len (ActiveBits s) = nat (IPRange (ActiveStart s) (ActiveEnd s))"
    using length_rebuilt [of s] by (simp add: eq bitset_Len_def)
  ultimately show "bitset_Len (ActiveBits s) = nat (IPRange (ActiveStart s) (ActiveEnd s)) \<and> bits_exact s"
    by simp
next
  assume a: "bitset_Len (ActiveBits s) = nat (IPRange (ActiveStart s) (ActiveEnd s)) \<and> bits_exact s"
  show "rebuilt_bits s = ActiveBits s"
  proof (rule nth_equalityI)
    show "length (rebuilt_bits s) = length (ActiveBits s)"
      using a by (simp add: length_rebuilt bitset_Len_def)
    fix i
    assume i: "i < length (rebuilt_bits s)"
    then have i': "i < length (ActiveBits s)"
      using a by (simp add: length_rebuilt bitset_Len_def)
    then have "bitset_Test (ActiveBits s) i = ip_held s (IPAdd (ActiveStart s) (int i))"
      using a by (simp add: bits_exact_def list_all_iff bitset_Len_def)
    then show "rebuilt_bits s ! i = ActiveBits s ! i"
      using i i' by (simp add: nth_rebuilt bitset_Test_def)
  qed
qed

lemma snapshot_ok_net2: "snapshot_ok net2"
  unfolding net2_eq by code_simp

lemma snapshot_ok_netD: "snapshot_ok netD"
  unfolding netD_def net2_eq by code_simp

lemma range_net2: "nat (IPRange (ActiveStart net2) (ActiveEnd net2)) = 3"
  by (simp add: net2_eq net0_def IPRange_def)

lemma rebuilt_net2: "rebuilt_bits net2 = [True, True, False]"
  unfolding rebuilt_bits_def range_net2
  by (simp add: upt_rec [of 0] upt_rec [of "Suc 0"] upt_rec [of "Suc (Suc 0)"] numeral_3_eq_3
      net2_eq net0_def ip_held_def IPAdd_def lease1_def lease2_def)

lemma rebuilt_netD: "rebuilt_bits netD = [True, True, False]"
  using rebuilt_net2 by (simp add: rebuilt_bits_def netD_def ip_held_def)

lemma synthetic_net2:
  "synthetic_options (Subnet net2) =
     [\<lparr>Code = 1, Value = ''255.255.255.0''\<rparr>, \<lparr>Code = 28, Value = ''10.0.0.255''\<rparr>]"
  unfolding net2_eq by code_simp

lemma synthetic_netD:
  "synthetic_options (Subnet netD) =
     [\<lparr>Code = 1, Value = ''255.255.255.0''\<rparr>, \<lparr>Code = 28, Value = ''10.0.0.255''\<rparr>]"
  using synthetic_net2 by (simp add: netD_def)

subsection \<open>The claims\<close>

text \<open>
  C1. The specification asks that bit \<open>i\<close> of \<open>ActiveBits\<close> is set exactly when a lease or
  a binding holds \<open>ActiveStart + i\<close>, in every state the operations reach, and that
  \<^verbatim>\<open>free_lease\<close> clears the bit of the lease it removes. The code does not: it calls
  \<^verbatim>\<open>IPRange\<close> with the lease's address first and the start of the range second, the other
  way round from \<^verbatim>\<open>UnmarshalJSON\<close>, \<^verbatim>\<open>AddBinding\<close> and \<^verbatim>\<open>DeleteBinding\<close>, so the
  index is negative for every address above the start, wraps around as a \<^verbatim>\<open>uint\<close>, and
  \<^verbatim>\<open>Clear\<close> ignores it. Here the subnet is loaded, two clients get \<^verbatim>\<open>10.0.0.10\<close> and
  \<^verbatim>\<open>10.0.0.11\<close>, the property holds, and the second client releases its lease: the lease
  is gone, bit 1 is still set, nobody holds \<^verbatim>\<open>10.0.0.11\<close>, and the property is lost.
\<close>

theorem free_lease_keeps_bit_set:
  "UnmarshalJSON api0 = Inr net0 \<and>
   bits_exact net2 \<and>
   map_of (Leases net2) mac2 = Some lease2 \<and>
   IPInRange (ActiveStart net2) (ActiveEnd net2) (lIp lease2) \<and>
   lIp lease2 = IPAdd (ActiveStart net2) 1 \<and>
   net3 = fst (free_lease net2 mac2) \<and>
   map_of (Leases net3) mac2 = None \<and>
   ActiveBits net3 = ActiveBits net2 \<and>
   bitset_Test (ActiveBits net3) 1 \<and>
   \<not> ip_held net3 (IPAdd (ActiveStart net3) 1) \<and>
   \<not> bits_exact net3"
proof -
  have "bits_exact net2"
    unfolding net2_eq by code_simp
  moreover have "map_of (Leases net2) mac2 = Some lease2"
    unfolding net2_eq by code_simp
  moreover have "IPInRange (ActiveStart net2) (ActiveEnd net2) (lIp lease2)"
    unfolding net2_eq by code_simp
  moreover have "lIp lease2 = IPAdd (ActiveStart net2) 1"
    unfolding net2_eq by code_simp
  moreover have "map_of (Leases net3) mac2 = None"
    unfolding net3_eq by code_simp
  moreover have "ActiveBits net3 = ActiveBits net2"
    unfolding net3_eq net2_eq by simp
  moreover have "bitset_Test (ActiveBits net3) 1"
    unfolding net3_eq by code_simp
  moreover have "\<not> ip_held net3 (IPAdd (ActiveStart net3) 1)"
    unfolding net3_eq by code_simp
  moreover have "\<not> bits_exact net3"
    unfolding net3_eq by code_simp
  ultimately show ?thesis
    using load_api0 net3_def by simp
qed

text \<open>
  C7. The specification asks for the renewal and the rebinding time in seconds: half and
  three quarters of the lease time. \<^verbatim>\<open>build_options\<close> converts the lease time, which is
  a \<^verbatim>\<open>time.Duration\<close> in nanoseconds, straight to \<^verbatim>\<open>uint32\<close>. For the lease time of 60
  seconds of \<open>net0\<close>, without a binding, the bytes under the codes 58 and 59 spell
  2082712576 and 976585216, not 30 and 45; the lease time it returns is the active one.
\<close>

theorem build_options_times_not_seconds:
  "fst (build_options conv net0 l None) OptionRenewalTimeValue = Some [0x7C, 0x23, 0xAC, 0x00] \<and>
   fst (build_options conv net0 l None) OptionRebindingTimeValue = Some [0x3A, 0x35, 0x82, 0x00] \<and>
   snd (build_options conv net0 l None) = ActiveLeaseTime net0 \<and>
   ActiveLeaseTime net0 = 60 * Second \<and>
   PutUint32 2082712576 = [0x7C, 0x23, 0xAC, 0x00] \<and>
   PutUint32 976585216 = [0x3A, 0x35, 0x82, 0x00] \<and>
   PutUint32 30 = [0, 0, 0, 30] \<and>
   PutUint32 45 = [0, 0, 0, 45]"
proof -
  have w1: "(word_of_int (60 * Second) :: 32 word) div 2 = 2082712576"
    by (simp add: Second_def)
  have w2: "(word_of_int (60 * Second) :: 32 word) * 3 div 4 = 976585216"
    by (simp add: Second_def)
  have p1: "PutUint32 2082712576 = [0x7C, 0x23, 0xAC, 0x00]"
    by code_simp
  have p2: "PutUint32 976585216 = [0x3A, 0x35, 0x82, 0x00]"
    by code_simp
  have p3: "PutUint32 30 = [0, 0, 0, 30]"
    by code_simp
  have p4: "PutUint32 45 = [0, 0, 0, 45]"
    by code_simp
  have b: "build_options conv net0 l None =
      (fold_in_options conv (Options net0)
         [OptionRenewalTimeValue \<mapsto> PutUint32 2082712576,
          OptionRebindingTimeValue \<mapsto> PutUint32 976585216], 60 * Second)"
    using w1 w2 by (simp add: build_options_def net0_def Let_def)
  have f58: "fold_in_options conv (Options net0) m 58 = m 58" for m
    by (simp add: net0_def RenderToDHCP_def split: option.splits)
  have f59: "fold_in_options conv (Options net0) m 59 = m 59" for m
    by (simp add: net0_def RenderToDHCP_def split: option.splits)
  have "ActiveLeaseTime net0 = 60 * Second"
    by (simp add: net0_def)
  then show ?thesis
    using p1 p2 p3 p4
    by (simp add: b f58 f59 OptionRenewalTimeValue_def OptionRebindingTimeValue_def)
qed

text \<open>
  C3. The address a client suggests does not influence \<^verbatim>\<open>find_or_get_info\<close>: for any
  subnet, clock, MAC and any two suggestions, the returned lease and binding, the subnet
  left behind and the decision to save are the same. A requested address is therefore
  never granted for being requested.
\<close>

theorem find_or_get_info_ignores_suggestion:
  "find_or_get_info subnet now nic s1 = find_or_get_info subnet now nic s2"
  by (simp add: find_or_get_info_def)

text \<open>
  C5. \<^verbatim>\<open>ReplaceSubnet\<close> in a well-formed repository. When the name is absent it returns
  Not Found (404) and the repository is the one it was given. When the name is present,
  the new subnet takes the leases, the bindings and the bits of the old one as they are;
  if its network overlaps one of the remaining subnets, the call returns Bad Request (400),
  the map of the subnets is the one before the call and nothing is written; otherwise the
  call succeeds, the map is the remaining subnets with the new subnet under its name, and
  the repository is persisted.
\<close>

theorem ReplaceSubnet_outcomes:
  assumes "wf_repo dt"
  shows "(map_of (Subnets dt) name = None \<longrightarrow>
            ReplaceSubnet dt name new = ((Some ''Not Found'', StatusNotFound), dt)) \<and>
         (\<forall>old. map_of (Subnets dt) name = Some old \<longrightarrow>
            (overlaps_any (AList.delete name (Subnets dt)) new \<longrightarrow>
               fst (ReplaceSubnet dt name new) =
                 (Some ''Subnet overlaps with existing subnet'', StatusBadRequest) \<and>
               map_of (Subnets (snd (ReplaceSubnet dt name new))) = map_of (Subnets dt) \<and>
               database (snd (ReplaceSubnet dt name new)) = database dt) \<and>
            (\<not> overlaps_any (AList.delete name (Subnets dt)) new \<longrightarrow>
               fst (ReplaceSubnet dt name new) = (None, StatusOK) \<and>
               map_of (Subnets (snd (ReplaceSubnet dt name new))) =
                 (map_of (AList.delete name (Subnets dt)))(Name new \<mapsto> carried old new) \<and>
               Leases (carried old new) = Leases old \<and>
               Bindings (carried old new) = Bindings old \<and>
               ActiveBits (carried old new) = ActiveBits old \<and>
               persisted (snd (ReplaceSubnet dt name new))))"
proof (intro conjI allI impI)
  show "ReplaceSubnet dt name new = ((Some ''Not Found'', StatusNotFound), dt)"
    if "map_of (Subnets dt) name = None"
    using that by (simp add: ReplaceSubnet_def)
next
  fix old
  assume old: "map_of (Subnets dt) name = Some old"
  have key: "Name old = name"
    using assms old by (rule wf_repo_key)
  have c: "new\<lparr>Leases := Leases old, Bindings := Bindings old, ActiveBits := ActiveBits old\<rparr> = carried old new"
    by (simp add: carried_def)
  {
    assume ov: "overlaps_any (AList.delete name (Subnets dt)) new"
    have r: "ReplaceSubnet dt name new =
        ((Some ''Subnet overlaps with existing subnet'', StatusBadRequest),
         dt\<lparr>Subnets := AList.update name old (AList.delete name (Subnets dt))\<rparr>)"
      using old ov by (simp add: ReplaceSubnet_def Let_def key c subnetsOverlap_def overlap_loop_iff)
    show "fst (ReplaceSubnet dt name new) =
        (Some ''Subnet overlaps with existing subnet'', StatusBadRequest)"
      by (simp add: r)
    show "map_of (Subnets (snd (ReplaceSubnet dt name new))) = map_of (Subnets dt)"
      using old by (auto simp: r map_of_update_fun map_of_delete_fun)
    show "database (snd (ReplaceSubnet dt name new)) = database dt"
      by (simp add: r)
  }
  {
    assume ov: "\<not> overlaps_any (AList.delete name (Subnets dt)) new"
    have r: "ReplaceSubnet dt name new =
        ((None, StatusOK),
         save_data (dt\<lparr>Subnets := AList.update (Name new) (carried old new) (AList.delete name (Subnets dt))\<rparr>))"
      using old ov
      by (simp add: ReplaceSubnet_def Let_def key c subnetsOverlap_def overlap_loop_iff) (simp add: carried_def)
    show "fst (ReplaceSubnet dt name new) = (None, StatusOK)"
      by (simp add: r)
    show "map_of (Subnets (snd (ReplaceSubnet dt name new))) =
        (map_of (AList.delete name (Subnets dt)))(Name new \<mapsto> carried old new)"
      by (simp add: r map_of_update_fun)
    show "persisted (snd (ReplaceSubnet dt name new))"
      by (simp add: r)
  }
  show "Leases (carried old new) = Leases old" "Bindings (carried old new) = Bindings old"
    "ActiveBits (carried old new) = ActiveBits old"
    by (simp_all add: carried_def)
qed


theorem ReplaceSubnet_overlap_witness:
  "wf_repo repo3 \<and>
   map_of (Subnets repo3) ''lab'' = Some net2 \<and>
   overlaps_any (AList.delete ''lab'' (Subnets repo3)) newB2 \<and>
   fst (ReplaceSubnet repo3 ''lab'' newB2) =
     (Some ''Subnet overlaps with existing subnet'', StatusBadRequest) \<and>
   map_of (Subnets (snd (ReplaceSubnet repo3 ''lab'' newB2))) = map_of (Subnets repo3) \<and>
   database (snd (ReplaceSubnet repo3 ''lab'' newB2)) = database repo3"
proof -
  have a: "wf_repo repo3"
    unfolding wf_repo_def Subnets_repo3 net2_eq by code_simp
  have b: "map_of (Subnets repo3) ''lab'' = Some net2"
    unfolding Subnets_repo3 by simp
  have c: "overlaps_any (AList.delete ''lab'' (Subnets repo3)) newB2"
    unfolding Subnets_repo3 net2_eq by code_simp
  from ReplaceSubnet_outcomes [OF a, of "''lab''" newB2] a b c show ?thesis
    by simp
qed

text \<open>
  C6, as amended. \<^verbatim>\<open>AddSubnet\<close> returns Conflict (409) exactly when the name is taken.
  It returns Bad Request (400) exactly when the name is free and the network overlaps the
  network of a subnet of the repository: the name is checked first, so a subnet whose
  name is taken gets 409 also when its network overlaps. On both errors the repository is
  unchanged. It succeeds exactly when the name is free and nothing overlaps; then the
  subnet is stored under its name and the repository is persisted.
\<close>

theorem AddSubnet_outcomes:
  "(snd (fst (AddSubnet dt s)) = StatusConflict \<longleftrightarrow> Name s \<in> fst ` set (Subnets dt)) \<and>
   (snd (fst (AddSubnet dt s)) = StatusBadRequest \<longleftrightarrow>
      Name s \<notin> fst ` set (Subnets dt) \<and> overlaps_any (Subnets dt) s) \<and>
   (snd (fst (AddSubnet dt s)) = StatusOK \<longleftrightarrow>
      Name s \<notin> fst ` set (Subnets dt) \<and> \<not> overlaps_any (Subnets dt) s) \<and>
   (snd (fst (AddSubnet dt s)) \<noteq> StatusOK \<longrightarrow>
      fst (fst (AddSubnet dt s)) \<noteq> None \<and> snd (AddSubnet dt s) = dt) \<and>
   (snd (fst (AddSubnet dt s)) = StatusOK \<longrightarrow>
      fst (fst (AddSubnet dt s)) = None \<and>
      map_of (Subnets (snd (AddSubnet dt s))) = (map_of (Subnets dt))(Name s \<mapsto> s) \<and>
      persisted (snd (AddSubnet dt s)))"
  by (auto simp: AddSubnet_def subnetsOverlap_def overlap_loop_iff map_of_None_iff
      StatusConflict_def StatusBadRequest_def StatusOK_def map_of_update_fun
      split: option.splits dest: map_of_Some_key)

theorem AddSubnet_overlap_witness:
  "Name net25 \<notin> fst ` set (Subnets repo1) \<and>
   overlaps_any (Subnets repo1) net25 \<and>
   AddSubnet repo1 net25 = ((Some ''Subnet overlaps with existing subnet'', StatusBadRequest), repo1)"
proof -
  have a: "Name net25 \<notin> fst ` set (Subnets repo1)"
    unfolding Subnets_repo1 by (simp add: net25_def)
  have b: "overlaps_any (Subnets repo1) net25"
    unfolding Subnets_repo1 net2_eq by code_simp
  have a': "map_of (Subnets repo1) (Name net25) = None"
    using a by (simp add: map_of_None_iff)
  have c: "fst (fst (AddSubnet repo1 net25)) = Some ''Subnet overlaps with existing subnet''"
    using b by (simp add: AddSubnet_def a' subnetsOverlap_def overlap_loop_iff)
  have "StatusBadRequest \<noteq> StatusOK"
    by (simp add: StatusBadRequest_def StatusOK_def)
  with AddSubnet_outcomes [of repo1 net25] a b c show ?thesis
    by (simp add: prod_eq_iff)
qed

text \<open>
  C6 as stated fails: adding \<open>net2\<close> again to the repository that holds it overlaps (it is
  the same network), and the answer is 409, not 400.
\<close>

theorem AddSubnet_same_name_counterexample:
  "subnetsOverlap repo1 net2 \<and>
   overlaps_any (Subnets repo1) net2 \<and>
   AddSubnet repo1 net2 = ((Some ''Already exists'', StatusConflict), repo1) \<and>
   StatusConflict \<noteq> StatusBadRequest"
proof -
  have a: "subnetsOverlap repo1 net2"
    unfolding subnetsOverlap_def Subnets_repo1 net2_eq by code_simp
  have b: "map_of (Subnets repo1) (Name net2) = Some net2"
    unfolding Subnets_repo1 by (simp add: net2_eq net0_def)
  have c: "AddSubnet repo1 net2 = ((Some ''Already exists'', StatusConflict), repo1)"
    using b by (simp add: AddSubnet_def)
  show ?thesis
    using a c by (simp add: subnetsOverlap_def overlap_loop_iff StatusConflict_def StatusBadRequest_def)
qed

text \<open>
  C10, as amended. \<^verbatim>\<open>ReplaceSubnet\<close> does not check that the name of the new subnet is
  free. In a well-formed repository, when the new name differs from the replaced name,
  belongs to another subnet, and the new network overlaps none of the subnets that remain
  after the old one is taken out, the call succeeds: the entry of the other subnet now is
  the new subnet (with the leases, bindings and bits of the replaced one), the replaced
  name is gone, every other entry is as before, and the repository is persisted.
\<close>

theorem ReplaceSubnet_overwrites_namesake:
  assumes "wf_repo dt"
    and "map_of (Subnets dt) name = Some old"
    and "Name new \<noteq> name"
    and "map_of (Subnets dt) (Name new) = Some other"
    and "\<not> overlaps_any (AList.delete name (Subnets dt)) new"
  shows "fst (ReplaceSubnet dt name new) = (None, StatusOK) \<and>
         map_of (Subnets (snd (ReplaceSubnet dt name new))) (Name new) = Some (carried old new) \<and>
         map_of (Subnets (snd (ReplaceSubnet dt name new))) name = None \<and>
         (\<forall>k. k \<noteq> name \<and> k \<noteq> Name new \<longrightarrow>
            map_of (Subnets (snd (ReplaceSubnet dt name new))) k = map_of (Subnets dt) k) \<and>
         persisted (snd (ReplaceSubnet dt name new))"
proof -
  have key: "Name old = name"
    using assms(1,2) by (rule wf_repo_key)
  have c: "new\<lparr>Leases := Leases old, Bindings := Bindings old, ActiveBits := ActiveBits old\<rparr> = carried old new"
    by (simp add: carried_def)
  have n: "Name (carried old new) = Name new"
    by (simp add: carried_def)
  have r: "ReplaceSubnet dt name new =
      ((None, StatusOK),
       save_data (dt\<lparr>Subnets := AList.update (Name new) (carried old new) (AList.delete name (Subnets dt))\<rparr>))"
    using assms(2,5)
    by (simp add: ReplaceSubnet_def Let_def key c n subnetsOverlap_def overlap_loop_iff)
  show ?thesis
    using assms(3) by (simp add: r map_of_update_fun map_of_delete_fun)
qed

theorem ReplaceSubnet_overwrites_namesake_witness:
  "wf_repo repo2 \<and>
   map_of (Subnets repo2) ''lab'' = Some net2 \<and>
   Name newB3 \<noteq> ''lab'' \<and>
   map_of (Subnets repo2) (Name newB3) = Some netB \<and>
   \<not> overlaps_any (AList.delete ''lab'' (Subnets repo2)) newB3 \<and>
   fst (ReplaceSubnet repo2 ''lab'' newB3) = (None, StatusOK) \<and>
   map_of (Subnets (snd (ReplaceSubnet repo2 ''lab'' newB3))) ''b'' = Some (carried net2 newB3) \<and>
   carried net2 newB3 \<noteq> netB \<and>
   map_of (Subnets (snd (ReplaceSubnet repo2 ''lab'' newB3))) ''lab'' = None"
proof -
  have a: "wf_repo repo2"
    unfolding wf_repo_def Subnets_repo2 net2_eq by code_simp
  have b: "map_of (Subnets repo2) ''lab'' = Some net2"
    unfolding Subnets_repo2 by simp
  have c: "Name newB3 \<noteq> ''lab''" "Name newB3 = ''b''"
    by (simp_all add: newB3_def)
  have d: "map_of (Subnets repo2) (Name newB3) = Some netB"
    unfolding Subnets_repo2 c by simp
  have e: "\<not> overlaps_any (AList.delete ''lab'' (Subnets repo2)) newB3"
    unfolding Subnets_repo2 net2_eq by code_simp
  have f: "carried net2 newB3 \<noteq> netB"
    by (simp add: carried_def newB3_def netB_def net0_def)
  from ReplaceSubnet_overwrites_namesake [OF a b c(1) d e] a b c d e f show ?thesis
    by simp
qed

text \<open>
  C10 as stated fails: that the other subnet of the same name does not overlap is not
  enough. With a third subnet \<^verbatim>\<open>10.0.2.0/24\<close> in the repository, replacing \<open>lab\<close> by a
  subnet called \<open>b\<close> on \<^verbatim>\<open>10.0.2.0/24\<close> is refused with 400, although \<open>netB\<close>, the subnet
  called \<open>b\<close>, does not overlap it.
\<close>

theorem ReplaceSubnet_third_subnet_counterexample:
  "map_of (Subnets repo3) ''lab'' = Some net2 \<and>
   Name newB2 \<noteq> ''lab'' \<and>
   map_of (Subnets repo3) (Name newB2) = Some netB \<and>
   \<not> cidr_overlap (Subnet netB) (Subnet newB2) \<and>
   ReplaceSubnet repo3 ''lab'' newB2 =
     ((Some ''Subnet overlaps with existing subnet'', StatusBadRequest), repo3\<lparr>Subnets := [(''b'', netB), (''c'', netC), (''lab'', net2)]\<rparr>) \<and>
   StatusBadRequest \<noteq> StatusOK"
proof -
  have b: "map_of (Subnets repo3) ''lab'' = Some net2"
    unfolding Subnets_repo3 by simp
  have c: "Name newB2 \<noteq> ''lab''" "Name newB2 = ''b''"
    by (simp_all add: newB2_def)
  have d: "map_of (Subnets repo3) (Name newB2) = Some netB"
    unfolding Subnets_repo3 c by simp
  have e: "\<not> cidr_overlap (Subnet netB) (Subnet newB2)"
    by code_simp
  have n: "Name net2 = ''lab''"
    by (simp add: net2_eq net0_def)
  have ov: "overlap_loop [(''b'', netB), (''c'', netC)] (carried net2 newB2)"
    unfolding net2_eq by code_simp
  have r: "ReplaceSubnet repo3 ''lab'' newB2 =
     ((Some ''Subnet overlaps with existing subnet'', StatusBadRequest), repo3\<lparr>Subnets := [(''b'', netB), (''c'', netC), (''lab'', net2)]\<rparr>)"
    using ov by (simp add: ReplaceSubnet_def Subnets_repo3 n Let_def subnetsOverlap_def carried_def AList.delete_eq)
  show ?thesis
    using b c d e r by (simp add: StatusBadRequest_def StatusOK_def)
qed

text \<open>
  C9. Outside \<^verbatim>\<open>getFreeIP\<close> the expiry of a lease is never looked at. When a MAC has a
  lease and either no binding or a binding with the same address, \<^verbatim>\<open>find_info\<close> and
  \<^verbatim>\<open>find_or_get_info\<close> return that lease as it is and leave the subnet alone, whatever
  the clock and the expiry time are. When \<^verbatim>\<open>find_or_get_info\<close> makes a lease (the only
  case in which it returns a lease and saves), the lease has the zero expiry time, and it
  is \<^verbatim>\<open>update_lease_time\<close> that sets the expiry to the clock plus the duration.
\<close>

theorem expiry_only_in_getFreeIP:
  "(map_of (Leases s) nic = Some l \<and>
      (map_of (Bindings s) nic = None \<or>
       map_option bIp (map_of (Bindings s) nic) = Some (lIp l)) \<longrightarrow>
      find_info s nic = (Some l, map_of (Bindings s) nic) \<and>
      find_or_get_info s now nic sug = ((Some l, map_of (Bindings s) nic), s, False)) \<and>
   (find_or_get_info s now nic sug = ((Some l', b'), s', True) \<longrightarrow>
      l' = \<lparr>lIp = lIp l', lMac = nic, lValid = True, lExpireTime = 0\<rparr> \<and>
      map_of (Leases s') nic = Some l' \<and>
      map_of (Leases (fst (update_lease_time s' t l' d))) nic = Some (l'\<lparr>lExpireTime := t + d\<rparr>))"
proof (intro conjI impI)
  assume a: "map_of (Leases s) nic = Some l \<and>
      (map_of (Bindings s) nic = None \<or>
       map_option bIp (map_of (Bindings s) nic) = Some (lIp l))"
  show "find_info s nic = (Some l, map_of (Bindings s) nic)"
    using a by (simp add: find_info_def)
  show "find_or_get_info s now nic sug = ((Some l, map_of (Bindings s) nic), s, False)"
    using a by (auto simp: find_or_get_info_def Let_def)
next
  assume r: "find_or_get_info s now nic sug = ((Some l', b'), s', True)"
  have sp: "slow_path s now nic = ((Some l', b'), s', True)"
    using r by (auto simp: find_or_get_info_def Let_def split: if_splits)
  from sp obtain ip s0 where l': "l' = \<lparr>lIp = ip, lMac = nic, lValid = True, lExpireTime = 0\<rparr>"
    and s': "s' = s0\<lparr>Leases := AList.update nic l' (Leases s0)\<rparr>"
    by (auto simp: slow_path_def Let_def split: if_splits option.splits prod.splits)
  show "l' = \<lparr>lIp = lIp l', lMac = nic, lValid = True, lExpireTime = 0\<rparr>"
    by (simp add: l')
  show m: "map_of (Leases s') nic = Some l'"
    by (simp add: s' update_conv)
  have "lMac l' = nic"
    by (simp add: l')
  then show "map_of (Leases (fst (update_lease_time s' t l' d))) nic = Some (l'\<lparr>lExpireTime := t + d\<rparr>)"
    using m by (simp add: update_lease_time_def map_of_map_entry)
qed

theorem expiry_only_in_getFreeIP_witness:
  "map_of (Leases net2) mac1 = Some lease1 \<and>
   map_of (Bindings net2) mac1 = None \<and>
   lExpireTime lease1 < 100 \<and>
   find_info net2 mac1 = (Some lease1, None) \<and>
   find_or_get_info net2 100 mac1 None = ((Some lease1, None), net2, False) \<and>
   find_or_get_info net0 100 mac1 None = ((Some lease1, None), net1, True) \<and>
   lExpireTime lease1 = 0 \<and>
   map_of (Leases net1) mac1 = Some lease1 \<and>
   map_of (Leases (fst (update_lease_time net1 100 lease1 (60 * Second)))) mac1 =
     Some (lease1\<lparr>lExpireTime := 100 + 60 * Second\<rparr>)"
proof -
  have a: "map_of (Leases net2) mac1 = Some lease1"
    unfolding net2_eq by code_simp
  have b: "map_of (Bindings net2) mac1 = None"
    unfolding net2_eq by code_simp
  have c: "lExpireTime lease1 < 100" "lExpireTime lease1 = 0"
    by (simp_all add: lease1_def)
  have d: "find_or_get_info net0 100 mac1 None = ((Some lease1, None), net1, True)"
    unfolding net1_eq by code_simp
  from expiry_only_in_getFreeIP [of net2 mac1 lease1 100 None lease1 None net2]
    expiry_only_in_getFreeIP [of net0 mac1 lease1 100 None lease1 None net1 100 "60 * Second"]
    a b c d
  show ?thesis
    by simp
qed

text \<open>
  C8, as amended. \<^verbatim>\<open>AddBinding\<close> followed by \<^verbatim>\<open>DeleteBinding\<close> for the same MAC gives
  back the subnets of the repository as they were (bindings, leases and bits), and saves
  them, provided that the MAC had no binding before and that, when the address of the
  binding is in the active range, its bit exists and was clear before, that is, no lease
  and no other binding held the address. An address outside the range needs only the
  first condition.
\<close>

theorem AddBinding_DeleteBinding_restores:
  assumes "map_of (Subnets dt) name = Some s"
    and "map_of (Bindings s) (bMac b) = None"
    and "IPInRange (ActiveStart s) (ActiveEnd s) (bIp b) \<longrightarrow>
           go_uint (IPRange (ActiveStart s) (bIp b) - 1) < bitset_Len (ActiveBits s) \<and>
           \<not> bitset_Test (ActiveBits s) (go_uint (IPRange (ActiveStart s) (bIp b) - 1))"
  shows "fst (AddBinding dt name b) = (None, StatusOK) \<and>
         fst (DeleteBinding (snd (AddBinding dt name b)) name (bMac b)) = (None, StatusOK) \<and>
         Subnets (snd (DeleteBinding (snd (AddBinding dt name b)) name (bMac b))) = Subnets dt \<and>
         persisted (snd (DeleteBinding (snd (AddBinding dt name b)) name (bMac b)))"
proof -
  define i where "i = go_uint (IPRange (ActiveStart s) (bIp b) - 1)"
  define s1 where "s1 = s\<lparr>ActiveBits :=
        (if IPInRange (ActiveStart s) (ActiveEnd s) (bIp b) then bitset_Set (ActiveBits s) i
         else ActiveBits s),
      Bindings := AList.update (bMac b) b (Bindings s)\<rparr>"
  define dt1 where "dt1 = save_data (dt\<lparr>Subnets := AList.update name s1 (Subnets dt)\<rparr>)"
  have add: "AddBinding dt name b = ((None, StatusOK), dt1)"
    using assms(1,2) by (simp add: AddBinding_def Let_def dt1_def s1_def i_def)
  have l1: "map_of (Subnets dt1) name = Some s1"
    by (simp add: dt1_def update_conv)
  have b1: "map_of (Bindings s1) (bMac b) = Some b"
    by (simp add: s1_def update_conv)
  have undo: "s1\<lparr>ActiveBits :=
        (if IPInRange (ActiveStart s1) (ActiveEnd s1) (bIp b)
         then bitset_Clear (ActiveBits s1) (go_uint (IPRange (ActiveStart s1) (bIp b) - 1))
         else ActiveBits s1),
      Bindings := AList.delete (bMac b) (Bindings s1)\<rparr> = s"
    using assms(2,3) by (simp add: s1_def i_def delete_after_update Clear_after_Set)
  have del: "DeleteBinding dt1 name (bMac b) =
      ((None, StatusOK), save_data (dt1\<lparr>Subnets := AList.update name s (Subnets dt1)\<rparr>))"
    using l1 b1 by (simp add: DeleteBinding_def Let_def undo)
  have "AList.update name s (Subnets dt1) = Subnets dt"
    using assms(1) by (simp add: dt1_def update_twice update_same)
  then show ?thesis
    by (simp add: add del)
qed


theorem AddBinding_DeleteBinding_restores_witness:
  "map_of (Subnets repo1) ''lab'' = Some net2 \<and>
   map_of (Bindings net2) (bMac bind3) = None \<and>
   IPInRange (ActiveStart net2) (ActiveEnd net2) (bIp bind3) \<and>
   go_uint (IPRange (ActiveStart net2) (bIp bind3) - 1) < bitset_Len (ActiveBits net2) \<and>
   \<not> bitset_Test (ActiveBits net2) (go_uint (IPRange (ActiveStart net2) (bIp bind3) - 1)) \<and>
   fst (AddBinding repo1 ''lab'' bind3) = (None, StatusOK) \<and>
   fst (DeleteBinding (snd (AddBinding repo1 ''lab'' bind3)) ''lab'' (bMac bind3)) = (None, StatusOK) \<and>
   Subnets (snd (DeleteBinding (snd (AddBinding repo1 ''lab'' bind3)) ''lab'' (bMac bind3))) =
     Subnets repo1"
proof -
  have a: "map_of (Subnets repo1) ''lab'' = Some net2"
    unfolding Subnets_repo1 by simp
  have b: "map_of (Bindings net2) (bMac bind3) = None"
    by (simp add: net2_eq net0_def)
  have c: "IPInRange (ActiveStart net2) (ActiveEnd net2) (bIp bind3)"
    unfolding net2_eq by code_simp
  have d: "go_uint (IPRange (ActiveStart net2) (bIp bind3) - 1) < bitset_Len (ActiveBits net2)"
    unfolding idx_bind3 by (simp add: net2_eq net0_def bitset_Len_def)
  have e: "\<not> bitset_Test (ActiveBits net2) (go_uint (IPRange (ActiveStart net2) (bIp bind3) - 1))"
    unfolding idx_bind3 by (simp add: net2_eq net0_def bitset_Test_def)
  from AddBinding_DeleteBinding_restores [of repo1 "''lab''" net2 bind3] a b c d e
  show ?thesis
    by simp
qed

text \<open>
  C8 as stated fails when a lease holds the address: in \<open>net2\<close> the first client leases
  \<^verbatim>\<open>10.0.0.10\<close> and bit 0 is set. Binding that address and deleting the binding clears
  bit 0, while the lease is still there.
\<close>

theorem AddBinding_DeleteBinding_leased_counterexample:
  "map_of (Subnets repo1) ''lab'' = Some net2 \<and>
   map_of (Leases net2) mac1 = Some lease1 \<and>
   lIp lease1 = bIp bind1 \<and>
   IPInRange (ActiveStart net2) (ActiveEnd net2) (bIp bind1) \<and>
   map_of (Bindings net2) (bMac bind1) = None \<and>
   ActiveBits net2 = [True, True, False] \<and>
   fst (AddBinding repo1 ''lab'' bind1) = (None, StatusOK) \<and>
   DeleteBinding (snd (AddBinding repo1 ''lab'' bind1)) ''lab'' (bMac bind1) =
     ((None, StatusOK),
      save_data (repo1\<lparr>Subnets := [(''lab'', net2\<lparr>ActiveBits := [False, True, False]\<rparr>)]\<rparr>)) \<and>
   net2\<lparr>ActiveBits := [False, True, False]\<rparr> \<noteq> net2"
  by (rule bind_unbind_leased)

text \<open>
  C2, as amended. \<^verbatim>\<open>getFreeIP\<close> on a subnet (the keys of whose lease map are distinct,
  as in a Go map): if \<open>ActiveBits\<close> has a clear bit, it sets the lowest clear bit \<open>b\<close> and
  returns \<open>ActiveStart + b\<close> with the flag true. A set without a lowest clear bit is
  full; then the leases with an expiry time before now are removed and all the others
  kept, the length of the bit set stays, and the set is scanned again: if it has a clear
  bit now, a lease was removed, the lowest clear bit \<open>b\<close> is set and \<open>ActiveStart + b\<close> is
  returned with the flag true; if it is still full, no address is returned and the flag
  says whether a lease was removed. Which bits the sweep clears is not part of this
  statement.
\<close>

theorem getFreeIP_steps:
  assumes "distinct (map fst (Leases s))"
  shows
    "(\<forall>b. lowest_clear (ActiveBits s) b \<longrightarrow>
        getFreeIP s now =
          (Some (ActiveStart s + of_nat b), True, s\<lparr>ActiveBits := (ActiveBits s)[b := True]\<rparr>)) \<and>
     (\<not> bits_full (ActiveBits s) \<longrightarrow> (\<exists>b. lowest_clear (ActiveBits s) b)) \<and>
     (bits_full (ActiveBits s) \<longrightarrow>
        sweep s now =
          s\<lparr>ActiveBits := ActiveBits (sweep s now),
            Leases := filter (\<lambda>e. \<not> expired now e) (Leases s)\<rparr> \<and>
        length (ActiveBits (sweep s now)) = length (ActiveBits s) \<and>
        (\<forall>b. lowest_clear (ActiveBits (sweep s now)) b \<longrightarrow>
           list_ex (expired now) (Leases s) \<and>
           getFreeIP s now =
             (Some (ActiveStart s + of_nat b), True,
              (sweep s now)\<lparr>ActiveBits := (ActiveBits (sweep s now))[b := True]\<rparr>)) \<and>
        (bits_full (ActiveBits (sweep s now)) \<longrightarrow>
           getFreeIP s now = (None, list_ex (expired now) (Leases s), sweep s now)))"
proof (intro conjI allI impI)
  fix b
  assume lc: "lowest_clear (ActiveBits s) b"
  then have "b < length (ActiveBits s)"
    by (simp add: lowest_clear_def)
  then show "getFreeIP s now =
      (Some (ActiveStart s + of_nat b), True, s\<lparr>ActiveBits := (ActiveBits s)[b := True]\<rparr>)"
    using firstClearBit_lowest [OF lc] by (simp add: getFreeIP_def IPAdd_def Set_in_range)
next
  assume "\<not> bits_full (ActiveBits s)"
  then show "\<exists>b. lowest_clear (ActiveBits s) b"
    by (rule not_full_lowest)
next
  assume full: "bits_full (ActiveBits s)"
  from sweep_eq [OF assms, of now] obtain bits where
    sw: "sweep_leases now (Leases s) (s, False) =
       (s\<lparr>ActiveBits := bits, Leases := filter (\<lambda>e. \<not> expired now e) (Leases s)\<rparr>,
        list_ex (expired now) (Leases s))"
    and len: "length bits = length (ActiveBits s)"
    and same: "\<not> list_ex (expired now) (Leases s) \<longrightarrow> bits = ActiveBits s"
    by blast
  have swept: "sweep s now = s\<lparr>ActiveBits := bits, Leases := filter (\<lambda>e. \<not> expired now e) (Leases s)\<rparr>"
    by (simp add: sweep_def sw)
  have first: "firstClearBit (ActiveBits s) = (0, False)"
    using full by (rule firstClearBit_full)
  show "sweep s now =
      s\<lparr>ActiveBits := ActiveBits (sweep s now), Leases := filter (\<lambda>e. \<not> expired now e) (Leases s)\<rparr>"
    by (simp add: swept)
  show "length (ActiveBits (sweep s now)) = length (ActiveBits s)"
    by (simp add: swept len)
  {
    fix b
    assume lc: "lowest_clear (ActiveBits (sweep s now)) b"
    then have lcb: "lowest_clear bits b"
      by (simp add: swept)
    show "list_ex (expired now) (Leases s)"
      using same lcb full full_not_lowest by auto
    have "b < length bits"
      using lcb by (simp add: lowest_clear_def)
    then show "getFreeIP s now =
        (Some (ActiveStart s + of_nat b), True,
         (sweep s now)\<lparr>ActiveBits := (ActiveBits (sweep s now))[b := True]\<rparr>)"
      using firstClearBit_lowest [OF lcb]
      by (simp add: getFreeIP_def first sw swept IPAdd_def Set_in_range)
  }
  {
    assume "bits_full (ActiveBits (sweep s now))"
    then have "firstClearBit bits = (0, False)"
      by (simp add: swept firstClearBit_full)
    then show "getFreeIP s now = (None, list_ex (expired now) (Leases s), sweep s now)"
      by (simp add: getFreeIP_def first sw swept)
  }
qed

theorem getFreeIP_steps_witness:
  "distinct (map fst (Leases net0)) \<and>
   lowest_clear (ActiveBits net0) 0 \<and>
   getFreeIP net0 100 = (Some 0x0A00000A, True, net0\<lparr>ActiveBits := [True, False, False]\<rparr>) \<and>
   distinct (map fst (Leases netF)) \<and>
   bits_full (ActiveBits netF) \<and>
   list_ex (expired 100) (Leases netF) \<and>
   Leases (sweep netF 100) = [] \<and>
   lowest_clear (ActiveBits (sweep netF 100)) 0 \<and>
   getFreeIP netF 100 = (Some 0x0A00000A, True, netF\<lparr>Leases := []\<rparr>) \<and>
   bits_full (ActiveBits (sweep netF 0)) \<and>
   getFreeIP netF 0 = (None, False, netF)"
proof -
  have a: "distinct (map fst (Leases net0))" "lowest_clear (ActiveBits net0) 0"
    by (simp_all add: net0_def lowest_clear_def)
  have b: "distinct (map fst (Leases netF))" "bits_full (ActiveBits netF)"
    by (simp_all add: netF_eq net0_def bits_full_def mac1_def mac2_def mac3_def)
  have c: "list_ex (expired 100) (Leases netF)"
    by (simp add: netF_eq net0_def expired_def lease1_def)
  have s100: "sweep netF 100 = netF\<lparr>ActiveBits := [False, True, True], Leases := []\<rparr>"
    by (simp add: sweep_def sweep_netF_100)
  have s0: "sweep netF 0 = netF"
    by (simp add: sweep_def sweep_netF_0)
  have d: "lowest_clear (ActiveBits (sweep netF 100)) 0" "Leases (sweep netF 100) = []"
    by (simp_all add: s100 lowest_clear_def)
  have e: "bits_full (ActiveBits (sweep netF 0))"
    unfolding s0 by (rule b)
  have f: "\<not> list_ex (expired 0) (Leases netF)"
    by (simp add: netF_eq net0_def expired_def lease1_def lease2_def lease3_def)
  have g: "netF\<lparr>ActiveBits := [True, True, True], Leases := []\<rparr> = netF\<lparr>Leases := []\<rparr>"
    by (simp add: netF_eq)
  from getFreeIP_steps [OF a(1), of 100] a(2)
  have r0: "getFreeIP net0 100 = (Some 0x0A00000A, True, net0\<lparr>ActiveBits := [True, False, False]\<rparr>)"
    by (simp add: net0_def)
  from getFreeIP_steps [OF b(1), of 100] b(2) d(1)
  have r1: "getFreeIP netF 100 = (Some 0x0A00000A, True, netF\<lparr>Leases := []\<rparr>)"
    by (simp add: s100 g) (simp add: netF_eq net0_def)
  from getFreeIP_steps [OF b(1), of 0] b(2) e f
  have r2: "getFreeIP netF 0 = (None, False, netF)"
    by (simp add: s0)
  show ?thesis
    using a b c d e r0 r1 r2 by simp
qed

text \<open>
  C2 as stated fails in its first step: with a clear bit, the flag that \<^verbatim>\<open>getFreeIP\<close>
  returns beside the address is true, not false.
\<close>

theorem getFreeIP_flag_counterexample:
  "lowest_clear (ActiveBits net0) 0 \<and>
   getFreeIP net0 100 =
     (Some (IPAdd (ActiveStart net0) 0), True,
      net0\<lparr>ActiveBits := bitset_Set (ActiveBits net0) 0\<rparr>) \<and>
   getFreeIP net0 100 \<noteq>
     (Some (IPAdd (ActiveStart net0) 0), False,
      net0\<lparr>ActiveBits := bitset_Set (ActiveBits net0) 0\<rparr>)"
proof -
  have a: "lowest_clear (ActiveBits net0) 0"
    by (simp add: net0_def lowest_clear_def)
  have "getFreeIP net0 100 =
     (Some (IPAdd (ActiveStart net0) 0), True,
      net0\<lparr>ActiveBits := bitset_Set (ActiveBits net0) 0\<rparr>)"
    using firstClearBit_lowest [OF a] by (simp add: getFreeIP_def)
  with a show ?thesis
    by simp
qed

text \<open>
  C4, as amended. For a subnet that satisfies \<open>snapshot_ok\<close>, \<^verbatim>\<open>UnmarshalJSON\<close> of
  \<^verbatim>\<open>MarshalJSON\<close> succeeds and gives the subnet back in every field but two. The options
  are the original options followed by the two synthetic ones, which are appended
  whether or not they are there already. The bit set is rebuilt from the leases and
  bindings: it has one bit for each address of the active range, and bit \<open>i\<close> is set
  exactly when a lease or a binding holds \<open>ActiveStart + i\<close>; it is the original bit set
  exactly when the original had that length and that property.
\<close>

theorem snapshot_round_trip:
  assumes "snapshot_ok s"
  shows "UnmarshalJSON (MarshalJSON s) =
           Inr (s\<lparr>ActiveBits := rebuilt_bits s,
                   Options := Options s @ synthetic_options (Subnet s)\<rparr>) \<and>
         length (rebuilt_bits s) = nat (IPRange (ActiveStart s) (ActiveEnd s)) \<and>
         (\<forall>i<length (rebuilt_bits s).
            rebuilt_bits s ! i = ip_held s (IPAdd (ActiveStart s) (int i))) \<and>
         (rebuilt_bits s = ActiveBits s \<longleftrightarrow>
            bitset_Len (ActiveBits s) = nat (IPRange (ActiveStart s) (ActiveEnd s)) \<and> bits_exact s) \<and>
         length (synthetic_options (Subnet s)) = 2"
  using round_trip_eq [OF assms] rebuilt_same_iff [of s] length_rebuilt [of s] nth_rebuilt [of _ s]
  by (simp add: synthetic_options_def)

theorem snapshot_round_trip_witness:
  "snapshot_ok net2 \<and>
   UnmarshalJSON (MarshalJSON net2) =
     Inr (net2\<lparr>Options := Options net2 @
            [\<lparr>Code = 1, Value = ''255.255.255.0''\<rparr>, \<lparr>Code = 28, Value = ''10.0.0.255''\<rparr>]\<rparr>) \<and>
   rebuilt_bits net2 = ActiveBits net2 \<and>
   bits_exact net2"
proof -
  have "ActiveBits net2 = [True, True, False]"
    by (simp add: net2_eq)
  with snapshot_round_trip [OF snapshot_ok_net2] snapshot_ok_net2 show ?thesis
    by (simp add: rebuilt_net2 synthetic_net2)
qed

text \<open>
  C4 as stated fails twice on \<open>netD\<close>, the subnet left by binding and unbinding the
  address that the first client leases. Its options already hold the two synthetic ones,
  and the round trip appends them again; its bit 0 is clear although the lease on
  \<^verbatim>\<open>10.0.0.10\<close> is there, and the rebuilt bit set has bit 0 set.
\<close>

theorem snapshot_round_trip_counterexample:
  "DeleteBinding (snd (AddBinding repo1 ''lab'' bind1)) ''lab'' (bMac bind1) =
     ((None, StatusOK), save_data (repo1\<lparr>Subnets := [(''lab'', netD)]\<rparr>)) \<and>
   Options netD =
     [\<lparr>Code = 1, Value = ''255.255.255.0''\<rparr>, \<lparr>Code = 28, Value = ''10.0.0.255''\<rparr>] \<and>
   ActiveBits netD = [False, True, False] \<and>
   UnmarshalJSON (MarshalJSON netD) =
     Inr (netD\<lparr>ActiveBits := [True, True, False],
               Options := [\<lparr>Code = 1, Value = ''255.255.255.0''\<rparr>,
                           \<lparr>Code = 28, Value = ''10.0.0.255''\<rparr>,
                           \<lparr>Code = 1, Value = ''255.255.255.0''\<rparr>,
                           \<lparr>Code = 28, Value = ''10.0.0.255''\<rparr>]\<rparr>)"
proof -
  have o: "Options netD =
     [\<lparr>Code = 1, Value = ''255.255.255.0''\<rparr>, \<lparr>Code = 28, Value = ''10.0.0.255''\<rparr>]"
    by (simp add: netD_def net2_eq net0_def)
  have b: "ActiveBits netD = [False, True, False]"
    by (simp add: netD_def)
  from bind_unbind_leased
  have r: "DeleteBinding (snd (AddBinding repo1 ''lab'' bind1)) ''lab'' (bMac bind1) =
     ((None, StatusOK), save_data (repo1\<lparr>Subnets := [(''lab'', netD)]\<rparr>))"
    by (simp add: netD_def)
  show ?thesis
    using round_trip_eq [OF snapshot_ok_netD] r
    by (simp add: o b rebuilt_netD synthetic_netD)
qed

end
